theory Spec2Isabelle
  imports Main
begin

section \<open>The document: nodes, selectors and the DOM operations the script calls\<close>

text \<open>
  The script \<^verbatim>\<open>openwebui_css/assets/custom.js\<close> works on the live document of the
  host page. A node is a tree value; \<open>nodeId\<close> is the identity of the JavaScript object
  (what \<^verbatim>\<open>WeakSet.has\<close> and captured references compare), \<open>nodeType\<close> is the DOM
  node type (1 for an element), \<open>classList\<close>, \<open>idAttr\<close> (\<^verbatim>\<open>el.id\<close>) and
  \<open>styleHeight\<close> (\<^verbatim>\<open>el.style.height\<close>) are the attributes the script reads and
  writes, and \<open>scrollHeight\<close> is the value the layout engine reports when the script
  reads \<^verbatim>\<open>el.scrollHeight\<close>.
\<close>

datatype node =
  Node (nodeId: nat) (nodeType: nat) (classList: "string list") (idAttr: string)
       (styleHeight: string) (scrollHeight: nat) (childNodes: "node list")

text \<open>A node followed by all its descendants, in document (pre-)order.\<close>

fun subtree :: "node \<Rightarrow> node list" where
  "subtree (Node i t c d h sh ks) = Node i t c d h sh ks # concat (map subtree ks)"

definition descendants :: "node \<Rightarrow> node list" where
  "descendants n = concat (map subtree (childNodes n))"

text \<open>\<^verbatim>\<open>node.classList?.contains(c)\<close>: only elements have a class list.\<close>

definition classContains :: "node \<Rightarrow> string \<Rightarrow> bool" where
  "classContains n c = (nodeType n = 1 \<and> c \<in> set (classList n))"

text \<open>
  The selectors of the script are compound class selectors: \<^verbatim>\<open>.cm-editor\<close> is
  \<open>[''cm-editor'']\<close> and \<^verbatim>\<open>.relative.my-2\<close> is \<open>[''relative'', ''my-2'']\<close>.
  A selector matches elements only.
\<close>

definition matches :: "string list \<Rightarrow> node \<Rightarrow> bool" where
  "matches sel n = (nodeType n = 1 \<and> list_all (\<lambda>c. c \<in> set (classList n)) sel)"

definition querySelectorAll :: "string list \<Rightarrow> node \<Rightarrow> node list" where
  "querySelectorAll sel n = filter (matches sel) (descendants n)"

definition querySelector :: "string list \<Rightarrow> node \<Rightarrow> node option" where
  "querySelector sel n = (case querySelectorAll sel n of [] \<Rightarrow> None | m # _ \<Rightarrow> Some m)"

definition firstNonEmpty :: "'a list list \<Rightarrow> 'a list" where
  "firstNonEmpty ps = (case filter (\<lambda>p. p \<noteq> []) ps of [] \<Rightarrow> [] | p # _ \<Rightarrow> p)"

text \<open>
  The node with identity \<open>x\<close> followed by its ancestors, innermost first; empty when the
  tree has no such node.
\<close>

fun pathTo :: "nat \<Rightarrow> node \<Rightarrow> node list" where
  "pathTo x (Node i t c d h sh ks) =
     (if i = x then [Node i t c d h sh ks]
      else (case firstNonEmpty (map (pathTo x) ks) of
              [] \<Rightarrow> []
            | p # ps \<Rightarrow> (p # ps) @ [Node i t c d h sh ks]))"

text \<open>Mutation of the node with identity \<open>x\<close>, wherever it is in the tree.\<close>

fun updateNode :: "nat \<Rightarrow> (node \<Rightarrow> node) \<Rightarrow> node \<Rightarrow> node" where
  "updateNode x f (Node i t c d h sh ks) =
     (if i = x then f (Node i t c d h sh (map (updateNode x f) ks))
      else Node i t c d h sh (map (updateNode x f) ks))"

definition withId :: "string \<Rightarrow> node \<Rightarrow> node" where
  "withId v n = Node (nodeId n) (nodeType n) (classList n) v (styleHeight n) (scrollHeight n) (childNodes n)"

definition withStyleHeight :: "string \<Rightarrow> node \<Rightarrow> node" where
  "withStyleHeight v n = Node (nodeId n) (nodeType n) (classList n) (idAttr n) v (scrollHeight n) (childNodes n)"

definition withChild :: "node \<Rightarrow> node \<Rightarrow> node" where
  "withChild k n = Node (nodeId n) (nodeType n) (classList n) (idAttr n) (styleHeight n) (scrollHeight n) (childNodes n @ [k])"

section \<open>The state of the script and of the browser objects it talks to\<close>

datatype observer_call = Observe | Disconnect

datatype error = TypeError

datatype mutation = MutationRecord (addedNodes: "nat list") (removedNodes: "nat list")

text \<open>
  \<open>isCurrentlyEditPage\<close>, \<open>mutationObserverActive\<close> and \<open>observedCodeBlocks\<close> are the
  three variables of the script (lines 7 to 9). \<open>href\<close> is \<^verbatim>\<open>window.location.href\<close>.
  \<open>document\<close> is the tree of the live document, whose root is the \<^verbatim>\<open>Document\<close> node
  itself (node type 9, matched by no selector), and \<open>detached\<close> holds the trees that
  are alive but not in the document. The calls the script makes on browser objects are
  kept as traces, newest last: \<open>resizeObserveCalls\<close> for \<^verbatim>\<open>resizeObserver.observe(el)\<close>,
  \<open>mutationObserverCalls\<close> for \<^verbatim>\<open>mutationObserver.observe(document.body, ...)\<close> and
  \<^verbatim>\<open>mutationObserver.disconnect()\<close>, \<open>scrollIntoViewCalls\<close> for
  \<^verbatim>\<open>scrollTarget.scrollIntoView(...)\<close>, \<open>consoleErrors\<close> for what the \<^verbatim>\<open>error\<close>
  listener logs. \<open>frameCallbacks\<close> is the queue of \<^verbatim>\<open>requestAnimationFrame\<close>: each
  entry is the closure of the click listener, that is the captured \<open>editorRoot\<close>,
  \<open>button\<close> and \<open>isCollapsed\<close>.
\<close>

record state =
  href :: string
  isCurrentlyEditPage :: bool
  mutationObserverActive :: bool
  observedCodeBlocks :: "nat set"
  document :: node
  detached :: "node list"
  resizeObserveCalls :: "nat list"
  mutationObserverCalls :: "observer_call list"
  frameCallbacks :: "(nat \<times> nat \<times> bool) list"
  scrollIntoViewCalls :: "nat list"
  consoleErrors :: "error list"

definition allNodes :: "state \<Rightarrow> node list" where
  "allNodes s = concat (map subtree (document s # detached s))"

definition pathIn :: "nat \<Rightarrow> state \<Rightarrow> node list" where
  "pathIn x s = firstNonEmpty (map (pathTo x) (document s # detached s))"

text \<open>Dereferencing an object reference.\<close>

definition lookupNode :: "nat \<Rightarrow> state \<Rightarrow> node option" where
  "lookupNode x s = (case pathIn x s of [] \<Rightarrow> None | n # _ \<Rightarrow> Some n)"

text \<open>\<^verbatim>\<open>el.closest(sel)\<close>: the element itself or its nearest ancestor matching.\<close>

definition closest :: "string list \<Rightarrow> nat \<Rightarrow> state \<Rightarrow> node option" where
  "closest sel x s = find (matches sel) (pathIn x s)"

text \<open>\<^verbatim>\<open>el.parentElement\<close>: the parent when it is an element.\<close>

definition parentElement :: "nat \<Rightarrow> state \<Rightarrow> node option" where
  "parentElement x s =
     (case pathIn x s of
        n # p # _ \<Rightarrow> (if nodeType p = 1 then Some p else None)
      | _ \<Rightarrow> None)"

definition updatePage :: "nat \<Rightarrow> (node \<Rightarrow> node) \<Rightarrow> state \<Rightarrow> state" where
  "updatePage x f s =
     s\<lparr>document := updateNode x f (document s), detached := map (updateNode x f) (detached s)\<rparr>"

definition setId :: "nat \<Rightarrow> string \<Rightarrow> state \<Rightarrow> state" where
  "setId x v s = updatePage x (withId v) s"

definition setStyleHeight :: "nat \<Rightarrow> string \<Rightarrow> state \<Rightarrow> state" where
  "setStyleHeight x v s = updatePage x (withStyleHeight v) s"

definition appendChild :: "nat \<Rightarrow> node \<Rightarrow> state \<Rightarrow> state" where
  "appendChild x k s = updatePage x (withChild k) s"

text \<open>The identity of a newly created object differs from every live one.\<close>

definition freshId :: "state \<Rightarrow> nat" where
  "freshId s = Suc (fold max (map nodeId (allNodes s)) 0)"

text \<open>
  \<^verbatim>\<open>document.createElement('button')\<close> followed by the two assignments of lines 67
  and 68: an element with no children, class \<^verbatim>\<open>code-expand-btn\<close> and id
  \<^verbatim>\<open>collapsed\<close>. It has not been laid out, so its scroll height reads 0.
\<close>

definition createExpandBtn :: "state \<Rightarrow> node" where
  "createExpandBtn s = Node (freshId s) 1 [''code-expand-btn''] ''collapsed'' [] 0 []"

section \<open>Number formatting and substring search\<close>

definition digitChar :: "nat \<Rightarrow> char" where
  "digitChar d = ''0123456789'' ! d"

fun showNat :: "nat \<Rightarrow> string" where
  "showNat n = (if n < 10 then [digitChar n] else showNat (n div 10) @ [digitChar (n mod 10)])"

text \<open>\<^verbatim>\<open>s.includes(t)\<close>: \<open>t\<close> occurs in \<open>s\<close> as a contiguous substring.\<close>

fun includesStr :: "string \<Rightarrow> string \<Rightarrow> bool" where
  "includesStr [] t = (t = [])"
| "includesStr (c # cs) t = (take (length t) (c # cs) = t \<or> includesStr cs t)"

section \<open>The script\<close>

definition COLLAPSED_HEIGHT :: nat where
  "COLLAPSED_HEIGHT = 400"

definition EDIT_PAGE_IDENTIFIER :: string where
  "EDIT_PAGE_IDENTIFIER = ''/functions''"

definition checkIsEditPage :: "state \<Rightarrow> bool" where
  "checkIsEditPage s = includesStr (href s) EDIT_PAGE_IDENTIFIER"

text \<open>
  Lines 53 to 79. A reference always denotes a live node, so the \<open>None\<close> branch of the
  dereference is never taken on a reference obtained from the page.
\<close>

definition updateCodeBlock :: "nat \<Rightarrow> state \<Rightarrow> state" where
  "updateCodeBlock editorRoot s =
     (case lookupNode editorRoot s of
        None \<Rightarrow> s
      | Some root \<Rightarrow>
          if querySelector [''code-expand-btn''] root \<noteq> None then s
          else if scrollHeight root > COLLAPSED_HEIGHT then
            (let s1 = setId editorRoot ''collapsed'' s;
                 s2 = setStyleHeight editorRoot (showNat COLLAPSED_HEIGHT @ ''px'') s1;
                 expandBtn = createExpandBtn s2
             in appendChild editorRoot expandBtn s2)
          else s)"

text \<open>Lines 86 to 93.\<close>

definition initializeCodeBlock :: "nat \<Rightarrow> state \<Rightarrow> state" where
  "initializeCodeBlock editorRoot s =
     (case lookupNode editorRoot s of
        None \<Rightarrow> s
      | Some root \<Rightarrow>
          if editorRoot \<in> observedCodeBlocks s \<or> \<not> classContains root ''cm-editor'' then s
          else
            updateCodeBlock editorRoot
              (s\<lparr>observedCodeBlocks := insert editorRoot (observedCodeBlocks s),
                 resizeObserveCalls := resizeObserveCalls s @ [editorRoot]\<rparr>))"

text \<open>
  Lines 99 to 102. \<^verbatim>\<open>querySelectorAll\<close> returns a static list, so the references
  are collected before the first root is initialized.
\<close>

definition initializeAllCodeBlocks :: "state \<Rightarrow> state" where
  "initializeAllCodeBlocks s =
     (if isCurrentlyEditPage s then s
      else fold initializeCodeBlock (map nodeId (querySelectorAll [''cm-editor''] (document s))) s)"

text \<open>Lines 110 to 121: the callback of the \<^verbatim>\<open>ResizeObserver\<close>, given the entries' targets.\<close>

definition resizeEntry :: "nat \<Rightarrow> state \<Rightarrow> state" where
  "resizeEntry editorRoot s =
     (case lookupNode editorRoot s of
        None \<Rightarrow> s
      | Some root \<Rightarrow> if \<not> classContains root ''cm-editor'' then s else updateCodeBlock editorRoot s)"

definition resizeObserverCallback :: "nat list \<Rightarrow> state \<Rightarrow> state" where
  "resizeObserverCallback entries s =
     (if isCurrentlyEditPage s then s else fold resizeEntry entries s)"

text \<open>
  Lines 127 to 156: the callback of the \<^verbatim>\<open>MutationObserver\<close>. The local
  \<^verbatim>\<open>hasNewCodeBlocks\<close> is written and never read.
\<close>

definition processAddedNode :: "nat \<Rightarrow> state \<Rightarrow> state" where
  "processAddedNode node s =
     (case lookupNode node s of
        None \<Rightarrow> s
      | Some n \<Rightarrow>
          if nodeType n \<noteq> 1 then s
          else if classContains n ''cm-editor'' then initializeCodeBlock node s
          else fold initializeCodeBlock (map nodeId (querySelectorAll [''cm-editor''] n)) s)"

definition mutationObserverCallback :: "mutation list \<Rightarrow> state \<Rightarrow> state" where
  "mutationObserverCallback mutations s =
     (if isCurrentlyEditPage s then s
      else fold (\<lambda>mutation. fold processAddedNode (addedNodes mutation)) mutations s)"

text \<open>
  Lines 163 to 173: the click listener up to the call of \<^verbatim>\<open>requestAnimationFrame\<close>.
  \<^verbatim>\<open>evt.target.classList.contains\<close> has no optional chaining: a target that is not an
  element has no class list and the call throws.
\<close>

definition clickListener :: "nat \<Rightarrow> state \<Rightarrow> error + state" where
  "clickListener target s =
     (case lookupNode target s of
        None \<Rightarrow> Inr s
      | Some t \<Rightarrow>
          if nodeType t \<noteq> 1 then Inl TypeError
          else if \<not> classContains t ''code-expand-btn'' then Inr s
          else
            (case closest [''cm-editor''] target s of
               None \<Rightarrow> Inr s
             | Some editorRoot \<Rightarrow>
                 (let isCollapsed = (idAttr editorRoot = ''collapsed'')
                  in Inr (s\<lparr>frameCallbacks := frameCallbacks s @ [(nodeId editorRoot, target, isCollapsed)]\<rparr>))))"

text \<open>Lines 174 to 196: the callback given to \<^verbatim>\<open>requestAnimationFrame\<close>.\<close>

definition toggleFrame :: "nat \<times> nat \<times> bool \<Rightarrow> state \<Rightarrow> state" where
  "toggleFrame cb s =
     (case cb of (editorRoot, button, isCollapsed) \<Rightarrow>
        if isCollapsed then
          (let scroller = (case lookupNode editorRoot s of
                             None \<Rightarrow> None
                           | Some root \<Rightarrow> querySelector [''cm-scroller''] root);
               s1 = (case scroller of
                       Some sc \<Rightarrow> setStyleHeight editorRoot (showNat (scrollHeight sc) @ ''px'') s
                     | None \<Rightarrow> setStyleHeight editorRoot ''auto'' s);
               s2 = setId editorRoot ''expanded'' s1
           in setId button ''expanded'' s2)
        else
          (let s1 = setStyleHeight editorRoot (showNat COLLAPSED_HEIGHT @ ''px'') s;
               s2 = setId editorRoot ''collapsed'' s1;
               s3 = setId button ''collapsed'' s2;
               scrollTarget = (case closest [''relative'', ''my-2''] editorRoot s3 of
                                 None \<Rightarrow> None
                               | Some c \<Rightarrow> parentElement (nodeId c) s3)
           in (case scrollTarget of
                 None \<Rightarrow> s3
               | Some t \<Rightarrow> s3\<lparr>scrollIntoViewCalls := scrollIntoViewCalls s3 @ [nodeId t]\<rparr>)))"

text \<open>The next animation frame runs the queued callbacks in order.\<close>

definition runAnimationFrame :: "state \<Rightarrow> state" where
  "runAnimationFrame s = fold toggleFrame (frameCallbacks s) (s\<lparr>frameCallbacks := []\<rparr>)"

text \<open>
  Lines 7 to 9, 110 and 127: the state when the script has been evaluated at location
  \<open>url\<close>, with \<open>doc\<close> the document and \<open>others\<close> the trees outside it. Nothing is
  tracked and both observers have been created, observing nothing.
\<close>

definition scriptLoaded :: "string \<Rightarrow> node \<Rightarrow> node list \<Rightarrow> state" where
  "scriptLoaded url doc others =
     (let s = \<lparr>href = url, isCurrentlyEditPage = False, mutationObserverActive = False,
                observedCodeBlocks = {}, document = doc, detached = others,
                resizeObserveCalls = [], mutationObserverCalls = [], frameCallbacks = [],
                scrollIntoViewCalls = [], consoleErrors = []\<rparr>
      in s\<lparr>isCurrentlyEditPage := checkIsEditPage s\<rparr>)"

text \<open>Lines 25 to 47.\<close>

definition onRouteChange :: "state \<Rightarrow> state" where
  "onRouteChange s =
     (let s1 = s\<lparr>isCurrentlyEditPage := checkIsEditPage s\<rparr>
      in if isCurrentlyEditPage s1 then
           (if mutationObserverActive s1 then
              s1\<lparr>mutationObserverCalls := mutationObserverCalls s1 @ [Disconnect],
                 mutationObserverActive := False\<rparr>
            else s1)
         else
           (let s2 = initializeAllCodeBlocks s1
            in if \<not> mutationObserverActive s2 then
                 s2\<lparr>mutationObserverCalls := mutationObserverCalls s2 @ [Observe],
                    mutationObserverActive := True\<rparr>
               else s2))"

text \<open>Lines 214 to 228.\<close>

definition init :: "state \<Rightarrow> state" where
  "init s =
     (let s1 = s\<lparr>isCurrentlyEditPage := checkIsEditPage s\<rparr>
      in if \<not> isCurrentlyEditPage s1 then
           (let s2 = initializeAllCodeBlocks s1
            in s2\<lparr>mutationObserverCalls := mutationObserverCalls s2 @ [Observe],
                  mutationObserverActive := True\<rparr>)
         else s1)"


text \<open>
  Lines 202 to 207: the replacement of \<^verbatim>\<open>history.pushState\<close> calls the original,
  which changes the location, and then \<open>onRouteChange\<close>; the \<^verbatim>\<open>popstate\<close> listener
  is \<open>onRouteChange\<close>, called after the browser has changed the location.
\<close>

definition pushState :: "string \<Rightarrow> state \<Rightarrow> state" where
  "pushState url s = onRouteChange (s\<lparr>href := url\<rparr>)"

definition popstate :: "string \<Rightarrow> state \<Rightarrow> state" where
  "popstate url s = onRouteChange (s\<lparr>href := url\<rparr>)"

text \<open>
  Lines 163 and 238 to 240: an exception thrown by the click listener reaches the
  \<^verbatim>\<open>error\<close> listener of the window, which logs it; the state is otherwise as before
  the click.
\<close>

definition click :: "nat \<Rightarrow> state \<Rightarrow> state" where
  "click target s =
     (case clickListener target s of
        Inl e \<Rightarrow> s\<lparr>consoleErrors := consoleErrors s @ [e]\<rparr>
      | Inr s' \<Rightarrow> s')"

text \<open>The layout engine reports a new scroll height for a node (its content grew or shrank).\<close>

definition withScrollHeight :: "nat \<Rightarrow> node \<Rightarrow> node" where
  "withScrollHeight v n = Node (nodeId n) (nodeType n) (classList n) (idAttr n) (styleHeight n) v (childNodes n)"

definition relayout :: "nat \<Rightarrow> nat \<Rightarrow> state \<Rightarrow> state" where
  "relayout x v s = updatePage x (withScrollHeight v) s"

text \<open>
  The events the script has a listener or an observer callback for, and the reaction to
  each. \<open>Layout\<close> is the one change of the page by the environment that the claims
  speak of.
\<close>

datatype event =
    DOMContentLoaded
  | PushState string
  | PopState string
  | ResizeObserved "nat list"
  | Mutated "mutation list"
  | Click nat
  | AnimationFrame
  | Layout nat nat

fun react :: "event \<Rightarrow> state \<Rightarrow> state" where
  "react DOMContentLoaded s = init s"
| "react (PushState url) s = pushState url s"
| "react (PopState url) s = popstate url s"
| "react (ResizeObserved entries) s = resizeObserverCallback entries s"
| "react (Mutated mutations) s = mutationObserverCallback mutations s"
| "react (Click target) s = click target s"
| "react AnimationFrame s = runAnimationFrame s"
| "react (Layout x v) s = relayout x v s"

section \<open>Reading the page, and the properties the claims speak of\<close>

text \<open>\<^verbatim>\<open>el.id\<close> and \<^verbatim>\<open>el.style.height\<close> of the node a reference denotes.\<close>

definition idOf :: "nat \<Rightarrow> state \<Rightarrow> string option" where
  "idOf x s = map_option idAttr (lookupNode x s)"

definition styleHeightOf :: "nat \<Rightarrow> state \<Rightarrow> string option" where
  "styleHeightOf x s = map_option styleHeight (lookupNode x s)"

text \<open>Object identities are unique.\<close>

definition wfPage :: "state \<Rightarrow> bool" where
  "wfPage s = distinct (map nodeId (allNodes s))"

text \<open>
  The toggle buttons of a root, by identity: the elements of class
  \<^verbatim>\<open>code-expand-btn\<close> below it.
\<close>

definition toggleButtons :: "node \<Rightarrow> nat set" where
  "toggleButtons root = nodeId ` set (querySelectorAll [''code-expand-btn''] root)"

definition toggleButtonsOf :: "nat \<Rightarrow> state \<Rightarrow> nat set" where
  "toggleButtonsOf x s = (case lookupNode x s of None \<Rightarrow> {} | Some root \<Rightarrow> toggleButtons root)"

text \<open>The test of line 55: the root has a toggle button.\<close>

definition hasToggleButton :: "nat \<Rightarrow> state \<Rightarrow> bool" where
  "hasToggleButton x s =
     (case lookupNode x s of None \<Rightarrow> False
      | Some root \<Rightarrow> querySelector [''code-expand-btn''] root \<noteq> None)"

text \<open>
  Whether the \<^verbatim>\<open>MutationObserver\<close> is attached after a sequence of calls on it
  (\<open>a\<close> says whether it was attached before), and the discipline of those calls: no
  \<open>Observe\<close> while attached, no \<open>Disconnect\<close> while detached. The observer is created
  detached (line 127).
\<close>

fun finalAttach :: "bool \<Rightarrow> observer_call list \<Rightarrow> bool" where
  "finalAttach a [] = a"
| "finalAttach a (c # cs) = finalAttach (c = Observe) cs"

definition mutationObserverAttached :: "state \<Rightarrow> bool" where
  "mutationObserverAttached s = finalAttach False (mutationObserverCalls s)"

fun alternating :: "bool \<Rightarrow> observer_call list \<Rightarrow> bool" where
  "alternating a [] = True"
| "alternating a (Observe # cs) = (\<not> a \<and> alternating True cs)"
| "alternating a (Disconnect # cs) = (a \<and> alternating False cs)"

text \<open>The flag of the script agrees with the observer, and the calls kept the discipline.\<close>

definition observerConsistent :: "state \<Rightarrow> bool" where
  "observerConsistent s =
     (alternating False (mutationObserverCalls s) \<and>
      mutationObserverActive s = mutationObserverAttached s)"

section \<open>Example pages\<close>

text \<open>
  A chat page: a message container holding a tall editor (scroll height 600) with its
  scroller, and a short editor (scroll height 100) holding a text node.
\<close>

definition chatDocument :: node where
  "chatDocument =
     Node 0 9 [] [] [] 0
       [Node 1 1 [] [] [] 900
          [Node 2 1 [''relative'', ''my-2''] [] [] 600
             [Node 3 1 [''cm-editor''] [] [] 600 [Node 4 1 [''cm-scroller''] [] [] 640 []]],
           Node 5 1 [''cm-editor''] [] [] 100 [Node 6 3 [] [] [] 0 []]]]"

definition chatState :: state where
  "chatState = scriptLoaded ''http://localhost:3000/c/1'' chatDocument []"


text \<open>
  The chat page after the initialization: the tall editor is collapsed and has its button
  (the new node 7), both editors are tracked and observed, the observer is attached.
\<close>

definition collapsedDocument :: node where
  "collapsedDocument =
     Node 0 9 [] [] [] 0
       [Node 1 1 [] [] [] 900
          [Node 2 1 [''relative'', ''my-2''] [] [] 600
             [Node 3 1 [''cm-editor''] ''collapsed'' ''400px'' 600
                [Node 4 1 [''cm-scroller''] [] [] 640 [],
                 Node 7 1 [''code-expand-btn''] ''collapsed'' [] 0 []]],
           Node 5 1 [''cm-editor''] [] [] 100 [Node 6 3 [] [] [] 0 []]]]"

definition collapsedState :: state where
  "collapsedState =
     \<lparr>href = ''http://localhost:3000/c/1'', isCurrentlyEditPage = False,
      mutationObserverActive = True, observedCodeBlocks = {3, 5}, document = collapsedDocument,
      detached = [], resizeObserveCalls = [3, 5], mutationObserverCalls = [Observe],
      frameCallbacks = [], scrollIntoViewCalls = [], consoleErrors = []\<rparr>"

text \<open>
  The same page after the host application has appended a new message to the body: the
  new node 10 holds a tall editor (node 13) three levels down.
\<close>

definition mutatedDocument :: node where
  "mutatedDocument =
     Node 0 9 [] [] [] 0
       [Node 1 1 [] [] [] 1600
          [Node 2 1 [''relative'', ''my-2''] [] [] 600
             [Node 3 1 [''cm-editor''] ''collapsed'' ''400px'' 600
                [Node 4 1 [''cm-scroller''] [] [] 640 [],
                 Node 7 1 [''code-expand-btn''] ''collapsed'' [] 0 []]],
           Node 5 1 [''cm-editor''] [] [] 100 [Node 6 3 [] [] [] 0 []],
           Node 10 1 [''message''] [] [] 700
             [Node 11 1 [] [] [] 700
                [Node 12 1 [''relative'', ''my-2''] [] [] 700
                   [Node 13 1 [''cm-editor''] [] [] 700
                      [Node 14 1 [''cm-scroller''] [] [] 700 []]]]]]]"

definition mutatedState :: state where
  "mutatedState = collapsedState\<lparr>document := mutatedDocument\<rparr>"

text \<open>
  A page whose collapsed editor has its button but neither a scroller inside nor a
  message container around it, and the same page with the editor expanded.
\<close>

definition bareState :: state where
  "bareState =
     collapsedState\<lparr>document :=
       Node 0 9 [] [] [] 0
         [Node 1 1 [] [] [] 600
            [Node 3 1 [''cm-editor''] ''collapsed'' ''400px'' 600
               [Node 8 1 [''cm-content''] [] [] 600 [],
                Node 7 1 [''code-expand-btn''] ''collapsed'' [] 0 []]]],
       observedCodeBlocks := {3}, resizeObserveCalls := [3]\<rparr>"

definition bareExpandedState :: state where
  "bareExpandedState =
     collapsedState\<lparr>document :=
       Node 0 9 [] [] [] 0
         [Node 1 1 [] [] [] 600
            [Node 3 1 [''cm-editor''] ''expanded'' ''auto'' 600
               [Node 8 1 [''cm-content''] [] [] 600 [],
                Node 7 1 [''code-expand-btn''] ''expanded'' [] 0 []]]],
       observedCodeBlocks := {3}, resizeObserveCalls := [3]\<rparr>"

text \<open>
  A page to which the host application has added an editor root (node 20) that holds
  another editor root (node 21), and the page with the new message while the route is
  the disabled page.
\<close>

definition nestedState :: state where
  "nestedState =
     collapsedState\<lparr>document :=
       Node 0 9 [] [] [] 0
         [Node 1 1 [] [] [] 900
            [Node 20 1 [''cm-editor''] [] [] 900
               [Node 21 1 [''cm-editor''] [] [] 700 []]]],
       observedCodeBlocks := {}, resizeObserveCalls := []\<rparr>"

definition editMutatedState :: state where
  "editMutatedState =
     mutatedState\<lparr>href := ''http://localhost:3000/workspace/functions'',
                    isCurrentlyEditPage := True, mutationObserverActive := False,
                    mutationObserverCalls := [Observe, Disconnect]\<rparr>"

section \<open>Auxiliary notions for the proofs\<close>


text \<open>A mutation of one node that keeps its identity, type and classes and appends the
  nodes \<open>extra\<close> to its children.\<close>

definition mutator :: "(node \<Rightarrow> node) \<Rightarrow> node list \<Rightarrow> bool" where
  "mutator f extra = (\<forall>m. nodeId (f m) = nodeId m \<and> nodeType (f m) = nodeType m \<and>
       classList (f m) = classList m \<and> childNodes (f m) = childNodes m @ extra)"

text \<open>The script only ever adds to the page: a node that can be dereferenced still can, with
  its type, its classes, the editor roots below it and at least the toggle buttons it
  had; the document has the same editor roots; what was tracked is tracked.\<close>

definition extends :: "state \<Rightarrow> state \<Rightarrow> bool" where
  "extends s s' =
     ((\<forall>y n. lookupNode y s = Some n \<longrightarrow>
         (\<exists>n'. lookupNode y s' = Some n' \<and> nodeType n' = nodeType n \<and> classList n' = classList n \<and>
               map nodeId (querySelectorAll [''cm-editor''] n') = map nodeId (querySelectorAll [''cm-editor''] n) \<and>
               toggleButtons n \<subseteq> toggleButtons n')) \<and>
      map nodeId (querySelectorAll [''cm-editor''] (document s')) =
        map nodeId (querySelectorAll [''cm-editor''] (document s)) \<and>
      observedCodeBlocks s \<subseteq> observedCodeBlocks s')"

text \<open>Initializing \<open>x\<close> again does nothing.\<close>

definition settled :: "nat \<Rightarrow> state \<Rightarrow> bool" where
  "settled x s = (case lookupNode x s of None \<Rightarrow> False
                  | Some n \<Rightarrow> x \<in> observedCodeBlocks s \<or> \<not> classContains n ''cm-editor'')"


text \<open>The state at another location and with another route flag; the state with other
  observer calls and another observer flag.\<close>

definition atRoute :: "string \<Rightarrow> bool \<Rightarrow> state \<Rightarrow> state" where
  "atRoute u e s = s\<lparr>href := u, isCurrentlyEditPage := e\<rparr>"

definition atObserver :: "observer_call list \<Rightarrow> bool \<Rightarrow> state \<Rightarrow> state" where
  "atObserver c a s = s\<lparr>mutationObserverCalls := c, mutationObserverActive := a\<rparr>"

text \<open>The reference denotes an editor root.\<close>

definition eligible :: "nat \<Rightarrow> state \<Rightarrow> bool" where
  "eligible r s = (\<exists>n. lookupNode r s = Some n \<and> classContains n ''cm-editor'')"

text \<open>Lines 134 to 147 initialize \<open>r\<close> when given the added node \<open>node\<close>.\<close>

definition reaches :: "nat \<Rightarrow> nat \<Rightarrow> state \<Rightarrow> bool" where
  "reaches node r s =
     (\<exists>added. lookupNode node s = Some added \<and> nodeType added = 1 \<and>
        (node = r \<or>
         \<not> classContains added ''cm-editor'' \<and>
         r \<in> set (map nodeId (querySelectorAll [''cm-editor''] added))))"

text \<open>The root \<open>r\<close> has been observed \<open>c\<close> times while it is not tracked, once more when it is.\<close>

definition onceInvariant :: "nat \<Rightarrow> nat \<Rightarrow> state \<Rightarrow> bool" where
  "onceInvariant r c s =
     (r \<notin> observedCodeBlocks s \<and> count_list (resizeObserveCalls s) r = c \<or>
      r \<in> observedCodeBlocks s \<and> count_list (resizeObserveCalls s) r = Suc c)"

text \<open>The root \<open>r\<close> is taller than the threshold, and has a toggle button once it is tracked.\<close>

definition tallInvariant :: "nat \<Rightarrow> state \<Rightarrow> bool" where
  "tallInvariant r s =
     ((\<exists>n. lookupNode r s = Some n \<and> COLLAPSED_HEIGHT < scrollHeight n) \<and>
      (r \<in> observedCodeBlocks s \<longrightarrow> hasToggleButton r s))"

text \<open>The root \<open>r\<close> has the id, the style height, the scroll height and the children of \<open>root\<close>,
  with the classes they have there.\<close>

definition shallowInvariant :: "nat \<Rightarrow> node \<Rightarrow> state \<Rightarrow> bool" where
  "shallowInvariant r root s =
     (\<exists>n. lookupNode r s = Some n \<and> idAttr n = idAttr root \<and> styleHeight n = styleHeight root \<and>
          scrollHeight n = scrollHeight root \<and>
          map nodeId (childNodes n) = map nodeId (childNodes root) \<and>
          map classList (childNodes n) = map classList (childNodes root))"

text \<open>The style height that the frame callback gives a root it expands, and the page after
  it has collapsed one.\<close>

definition expandedHeight :: "nat \<Rightarrow> state \<Rightarrow> string" where
  "expandedHeight r s =
     (case lookupNode r s of
        None \<Rightarrow> ''auto''
      | Some root \<Rightarrow>
          (case querySelector [''cm-scroller''] root of
             None \<Rightarrow> ''auto''
           | Some sc \<Rightarrow> showNat (scrollHeight sc) @ ''px''))"

definition collapsedPage :: "nat \<Rightarrow> nat \<Rightarrow> state \<Rightarrow> state" where
  "collapsedPage r b s =
     setId b ''collapsed'' (setId r ''collapsed'' (setStyleHeight r (showNat COLLAPSED_HEIGHT @ ''px'') s))"

text \<open>The identities in a tree, in document order.\<close>

definition idsOf :: "node \<Rightarrow> nat list" where
  "idsOf n = map nodeId (subtree n)"


text \<open>
  The root \<open>r\<close> is tracked, marked collapsed and 400 pixels high, and its children are
  those of \<open>root\<close> followed by the toggle button \<open>b\<close>, its only child that is one.
\<close>

definition collapsedInvariant :: "nat \<Rightarrow> node \<Rightarrow> nat \<Rightarrow> state \<Rightarrow> bool" where
  "collapsedInvariant r root b s =
     (r \<in> observedCodeBlocks s \<and>
      (\<exists>n front k. lookupNode r s = Some n \<and> idAttr n = ''collapsed'' \<and>
         styleHeight n = ''400px'' \<and> childNodes n = front @ [k] \<and>
         map nodeId front = map nodeId (childNodes root) \<and>
         (\<forall>c\<in>set front. \<not> matches [''code-expand-btn''] c) \<and>
         nodeId k = b \<and> matches [''code-expand-btn''] k))"


section \<open>Trees under mutation\<close>

declare showNat.simps [simp del]

lemma showNat_COLLAPSED_HEIGHT: "showNat COLLAPSED_HEIGHT @ ''px'' = ''400px''"
  by code_simp


lemma mutator_withId: "mutator (withId v) []"
  by (simp add: mutator_def withId_def)

lemma mutator_withStyleHeight: "mutator (withStyleHeight v) []"
  by (simp add: mutator_def withStyleHeight_def)

lemma mutator_withChild: "mutator (withChild k) [k]"
  by (simp add: mutator_def withChild_def)

lemma updateNode_header:
  assumes "mutator f extra"
  shows "nodeId (updateNode x f n) = nodeId n"
    and "nodeType (updateNode x f n) = nodeType n"
    and "classList (updateNode x f n) = classList n"
  using assms by (cases n; simp add: mutator_def)+

lemma updateNode_children:
  assumes "mutator f extra"
  shows "childNodes (updateNode x f n) =
           map (updateNode x f) (childNodes n) @ (if nodeId n = x then extra else [])"
  using assms by (cases n) (simp add: mutator_def)

lemma matches_updateNode: "mutator f extra \<Longrightarrow> matches sel (updateNode x f n) = matches sel n"
  by (simp add: matches_def updateNode_header)

lemma classContains_updateNode:
  "mutator f extra \<Longrightarrow> classContains (updateNode x f n) c = classContains n c"
  by (simp add: classContains_def updateNode_header)

lemma firstNonEmpty_simps [simp]:
  "firstNonEmpty [] = []"
  "firstNonEmpty (p # ps) = (if p = [] then firstNonEmpty ps else p)"
  by (simp_all add: firstNonEmpty_def)

lemma firstNonEmpty_map: "firstNonEmpty (map (map g) ps) = map g (firstNonEmpty ps)"
  by (induction ps) auto

lemma firstNonEmpty_append_empty:
  "\<forall>e\<in>set es. e = [] \<Longrightarrow> firstNonEmpty (ps @ es) = firstNonEmpty ps"
  by (induction ps) (auto, induction es, auto)

lemma firstNonEmpty_mem: "firstNonEmpty ps \<noteq> [] \<Longrightarrow> firstNonEmpty ps \<in> set ps"
  by (induction ps) (auto split: if_splits)

lemma pathTo_unfold:
  "pathTo y n = (if nodeId n = y then [n]
                 else (case firstNonEmpty (map (pathTo y) (childNodes n)) of
                         [] \<Rightarrow> [] | p # ps \<Rightarrow> (p # ps) @ [n]))"
  by (cases n) auto

lemma subtree_unfold: "subtree n = n # concat (map subtree (childNodes n))"
  by (cases n) simp

declare updateNode.simps [simp del] pathTo.simps [simp del] subtree.simps [simp del]

lemma pathTo_updateNode:
  assumes m: "mutator f extra" and e: "\<forall>e\<in>set extra. pathTo y e = []"
  shows "pathTo y (updateNode x f n) = map (updateNode x f) (pathTo y n)"
proof (induction n)
  case (Node i t c d h sh ks)
  let ?n = "Node i t c d h sh ks"
  have ih: "map (pathTo y) (map (updateNode x f) ks) = map (map (updateNode x f)) (map (pathTo y) ks)"
    using Node.IH by simp
  have kids: "firstNonEmpty (map (pathTo y) (childNodes (updateNode x f ?n)))
                = map (updateNode x f) (firstNonEmpty (map (pathTo y) ks))"
    using e by (simp add: updateNode_children[OF m] ih firstNonEmpty_append_empty firstNonEmpty_map
        del: map_map)
  have L: "pathTo y (updateNode x f ?n) =
      (if nodeId (updateNode x f ?n) = y then [updateNode x f ?n]
       else (case firstNonEmpty (map (pathTo y) (childNodes (updateNode x f ?n))) of
               [] \<Rightarrow> [] | p # ps \<Rightarrow> (p # ps) @ [updateNode x f ?n]))"
    by (rule pathTo_unfold)
  show ?case
    by (simp only: L kids) (simp add: pathTo.simps updateNode_header[OF m] split: list.splits)
qed


lemma filter_subtree_updateNode:
  assumes m: "mutator f extra"
    and P: "\<And>k. P (updateNode x f k) = P k"
    and e: "\<forall>e\<in>set extra. filter P (subtree e) = []"
  shows "filter P (subtree (updateNode x f n)) = map (updateNode x f) (filter P (subtree n))"
proof (induction n)
  case (Node i t c d h sh ks)
  let ?n = "Node i t c d h sh ks"
  have ih: "map (filter P) (map subtree (map (updateNode x f) ks))
              = map (map (updateNode x f)) (map (filter P) (map subtree ks))"
    using Node.IH by simp
  have ex: "concat (map (filter P) (map subtree extra)) = []"
    using e by simp
  have "filter P (concat (map subtree (childNodes (updateNode x f ?n))))
          = map (updateNode x f) (filter P (concat (map subtree ks)))"
    using e by (simp add: updateNode_children[OF m] filter_concat ih map_concat del: map_map)
  moreover have "subtree (updateNode x f ?n)
      = updateNode x f ?n # concat (map subtree (childNodes (updateNode x f ?n)))"
    by (rule subtree_unfold)
  ultimately show ?case
    by (simp add: P subtree.simps)
qed

lemma filter_descendants_updateNode:
  assumes m: "mutator f extra"
    and P: "\<And>k. P (updateNode x f k) = P k"
    and e: "\<forall>e\<in>set extra. filter P (subtree e) = []"
  shows "filter P (descendants (updateNode x f n)) = map (updateNode x f) (filter P (descendants n))"
proof -
  have ex: "concat (map (filter P) (map subtree extra)) = []"
    using e by simp
  have "map (filter P) (map subtree (map (updateNode x f) (childNodes n)))
          = map (map (updateNode x f)) (map (filter P) (map subtree (childNodes n)))"
    using filter_subtree_updateNode[OF m P e] by simp
  then show ?thesis
    unfolding descendants_def
    using e by (simp add: updateNode_children[OF m] filter_concat map_concat del: map_map)
qed

lemma querySelectorAll_updateNode:
  assumes m: "mutator f extra"
    and e: "\<forall>e\<in>set extra. filter (matches sel) (subtree e) = []"
  shows "querySelectorAll sel (updateNode x f n) = map (updateNode x f) (querySelectorAll sel n)"
  unfolding querySelectorAll_def
  by (rule filter_descendants_updateNode[OF m _ e]) (rule matches_updateNode[OF m])

lemma querySelectorAll_ids_updateNode:
  assumes m: "mutator f extra"
    and e: "\<forall>e\<in>set extra. filter (matches sel) (subtree e) = []"
  shows "map nodeId (querySelectorAll sel (updateNode x f n)) = map nodeId (querySelectorAll sel n)"
  by (simp add: querySelectorAll_updateNode[OF m e] updateNode_header[OF m] comp_def)

lemma subtree_mem_updateNode:
  assumes m: "mutator f extra"
  shows "k \<in> set (subtree n) \<Longrightarrow> updateNode x f k \<in> set (subtree (updateNode x f n))"
proof (induction n)
  case (Node i t c d h sh ks)
  let ?n = "Node i t c d h sh ks"
  from Node.prems have "k = ?n \<or> (\<exists>j\<in>set ks. k \<in> set (subtree j))"
    by (simp add: subtree.simps)
  then show ?case
  proof
    assume "k = ?n"
    then show ?thesis by (subst subtree_unfold) simp
  next
    assume "\<exists>j\<in>set ks. k \<in> set (subtree j)"
    then obtain j where j: "j \<in> set ks" "k \<in> set (subtree j)" by blast
    then have "updateNode x f k \<in> set (subtree (updateNode x f j))" using Node.IH by blast
    then show ?thesis using j(1)
      by (subst subtree_unfold) (auto simp: updateNode_children[OF m])
  qed
qed

lemma descendants_mem_updateNode:
  assumes m: "mutator f extra"
  shows "k \<in> set (descendants n) \<Longrightarrow> updateNode x f k \<in> set (descendants (updateNode x f n))"
  unfolding descendants_def
  by (auto simp: updateNode_children[OF m] dest: subtree_mem_updateNode[OF m])

lemma querySelector_None_iff:
  "querySelector sel n = None \<longleftrightarrow> (\<forall>k\<in>set (descendants n). \<not> matches sel k)"
proof -
  have "querySelector sel n = None \<longleftrightarrow> querySelectorAll sel n = []"
    by (simp add: querySelector_def split: list.splits)
  then show ?thesis by (simp add: querySelectorAll_def filter_empty_conv)
qed

lemma querySelector_updateNode_mono:
  assumes m: "mutator f extra"
  shows "querySelector sel n \<noteq> None \<Longrightarrow> querySelector sel (updateNode x f n) \<noteq> None"
  unfolding querySelector_None_iff
  using descendants_mem_updateNode[OF m] matches_updateNode[OF m] by blast

lemma updatePage_fields [simp]:
  "href (updatePage x f s) = href s"
  "isCurrentlyEditPage (updatePage x f s) = isCurrentlyEditPage s"
  "mutationObserverActive (updatePage x f s) = mutationObserverActive s"
  "observedCodeBlocks (updatePage x f s) = observedCodeBlocks s"
  "resizeObserveCalls (updatePage x f s) = resizeObserveCalls s"
  "mutationObserverCalls (updatePage x f s) = mutationObserverCalls s"
  "frameCallbacks (updatePage x f s) = frameCallbacks s"
  "scrollIntoViewCalls (updatePage x f s) = scrollIntoViewCalls s"
  "consoleErrors (updatePage x f s) = consoleErrors s"
  "document (updatePage x f s) = updateNode x f (document s)"
  "detached (updatePage x f s) = map (updateNode x f) (detached s)"
  by (simp_all add: updatePage_def)

lemma pathIn_updatePage:
  assumes m: "mutator f extra" and e: "\<forall>e\<in>set extra. pathTo y e = []"
  shows "pathIn y (updatePage x f s) = map (updateNode x f) (pathIn y s)"
proof -
  have "map (pathTo y) (map (updateNode x f) (document s # detached s))
          = map (map (updateNode x f)) (map (pathTo y) (document s # detached s))"
    using pathTo_updateNode[OF m e] by simp
  then have "firstNonEmpty (map (pathTo y) (map (updateNode x f) (document s # detached s)))
          = map (updateNode x f) (firstNonEmpty (map (pathTo y) (document s # detached s)))"
    by (simp only: firstNonEmpty_map)
  then show ?thesis
    unfolding pathIn_def by simp
qed

lemma lookupNode_updatePage:
  assumes m: "mutator f extra" and e: "\<forall>e\<in>set extra. pathTo y e = []"
  shows "lookupNode y (updatePage x f s) = map_option (updateNode x f) (lookupNode y s)"
  by (simp add: lookupNode_def pathIn_updatePage[OF m e] split: list.splits)

lemma find_map_pres: "(\<And>k. P (g k) = P k) \<Longrightarrow> find P (map g xs) = map_option g (find P xs)"
  by (induction xs) auto

lemma closest_updatePage:
  assumes m: "mutator f extra" and e: "\<forall>e\<in>set extra. pathTo y e = []"
  shows "closest sel y (updatePage x f s) = map_option (updateNode x f) (closest sel y s)"
  by (simp add: closest_def pathIn_updatePage[OF m e] find_map_pres matches_updateNode[OF m])

lemma parentElement_updatePage:
  assumes m: "mutator f extra" and e: "\<forall>e\<in>set extra. pathTo y e = []"
  shows "parentElement y (updatePage x f s) = map_option (updateNode x f) (parentElement y s)"
  by (simp add: parentElement_def pathIn_updatePage[OF m e] updateNode_header[OF m] split: list.splits)

lemma pathTo_subset: "set (pathTo y n) \<subseteq> set (subtree n)"
proof (induction n)
  case (Node i t c d h sh ks)
  have "set (firstNonEmpty (map (pathTo y) ks)) \<subseteq> set (concat (map subtree ks))"
  proof (cases "firstNonEmpty (map (pathTo y) ks) = []")
    case False
    then have "firstNonEmpty (map (pathTo y) ks) \<in> set (map (pathTo y) ks)"
      by (rule firstNonEmpty_mem)
    then obtain k where k: "k \<in> set ks" "firstNonEmpty (map (pathTo y) ks) = pathTo y k"
      by auto
    then have "set (pathTo y k) \<subseteq> set (subtree k)" using Node.IH by blast
    then show ?thesis using k by auto
  qed simp
  then show ?case
    by (cases "firstNonEmpty (map (pathTo y) ks)") (auto simp: pathTo.simps subtree.simps)
qed

lemma pathTo_hd: "pathTo y n = p # ps \<Longrightarrow> nodeId p = y"
proof (induction n arbitrary: p ps)
  case (Node i t c d h sh ks)
  show ?case
  proof (cases "i = y")
    case True
    then show ?thesis using Node.prems by (auto simp: pathTo.simps)
  next
    case False
    then obtain q qs where q: "firstNonEmpty (map (pathTo y) ks) = q # qs" and "p = q"
      using Node.prems by (auto simp: pathTo.simps split: list.splits)
    then have "q # qs \<in> set (map (pathTo y) ks)"
      using firstNonEmpty_mem[of "map (pathTo y) ks"] by simp
    then obtain k where "k \<in> set ks" "pathTo y k = q # qs" by auto
    then have "nodeId q = y" by (rule Node.IH)
    then show ?thesis using \<open>p = q\<close> by simp
  qed
qed

lemma pathIn_subset: "set (pathIn y s) \<subseteq> set (allNodes s)"
proof (cases "pathIn y s = []")
  case False
  then have "pathIn y s \<in> set (map (pathTo y) (document s # detached s))"
    unfolding pathIn_def by (rule firstNonEmpty_mem)
  then obtain t where "t \<in> set (document s # detached s)" "pathIn y s = pathTo y t" by auto
  then show ?thesis using pathTo_subset[of y t] unfolding allNodes_def by auto
qed simp

lemma pathIn_hd: "pathIn y s = p # ps \<Longrightarrow> nodeId p = y"
proof -
  assume a: "pathIn y s = p # ps"
  then have "pathIn y s \<noteq> []" by simp
  then have "pathIn y s \<in> set (map (pathTo y) (document s # detached s))"
    unfolding pathIn_def by (rule firstNonEmpty_mem)
  then obtain t where "pathTo y t = p # ps" using a by auto
  then show ?thesis by (rule pathTo_hd)
qed

lemma lookupNode_SomeD:
  "lookupNode y s = Some n \<Longrightarrow> nodeId n = y \<and> n \<in> set (allNodes s)"
  using pathIn_subset[of y s] pathIn_hd[of y s]
  by (auto simp: lookupNode_def split: list.splits)

lemma fold_max_ge: "a \<le> fold max xs (a::nat)"
  by (induction xs arbitrary: a) (auto intro: order_trans[OF max.cobounded2])

lemma fold_max_mem: "x \<in> set xs \<Longrightarrow> x \<le> fold max xs (a::nat)"
proof (induction xs arbitrary: a)
  case (Cons y ys)
  then show ?case
    using fold_max_ge[of "max y a" ys] by auto
qed simp

lemma allNodes_fresh: "n \<in> set (allNodes s) \<Longrightarrow> nodeId n < freshId s"
  unfolding freshId_def using fold_max_mem[of "nodeId n" "map nodeId (allNodes s)" 0] by auto

lemma lookupNode_fresh: "lookupNode y s = Some n \<Longrightarrow> y < freshId s"
  using lookupNode_SomeD allNodes_fresh by blast

lemma subtree_updateNode_plain:
  assumes m: "mutator f []"
  shows "subtree (updateNode x f n) = map (updateNode x f) (subtree n)"
  using filter_subtree_updateNode[OF m, of "\<lambda>_. True" x n] by simp

lemma allNodes_ids_updatePage:
  assumes m: "mutator f []"
  shows "map nodeId (allNodes (updatePage x f s)) = map nodeId (allNodes s)"
proof -
  have "map subtree (map (updateNode x f) (document s # detached s))
          = map (map (updateNode x f)) (map subtree (document s # detached s))"
    using subtree_updateNode_plain[OF m] by simp
  then have "allNodes (updatePage x f s) = map (updateNode x f) (allNodes s)"
    unfolding allNodes_def by (simp add: map_concat del: map_map)
  then show ?thesis by (simp add: updateNode_header[OF m] comp_def)
qed

lemma freshId_updatePage: "mutator f [] \<Longrightarrow> freshId (updatePage x f s) = freshId s"
  by (simp add: freshId_def allNodes_ids_updatePage)

lemma toggleButtons_updateNode_mono:
  assumes m: "mutator f extra"
  shows "toggleButtons n \<subseteq> toggleButtons (updateNode x f n)"
proof
  fix b assume "b \<in> toggleButtons n"
  then obtain k where k: "k \<in> set (descendants n)" "matches [''code-expand-btn''] k" "nodeId k = b"
    by (auto simp: toggleButtons_def querySelectorAll_def)
  have "updateNode x f k \<in> set (descendants (updateNode x f n))"
    using k(1) by (rule descendants_mem_updateNode[OF m])
  moreover have "matches [''code-expand-btn''] (updateNode x f k)"
    using k(2) by (simp add: matches_updateNode[OF m])
  moreover have "nodeId (updateNode x f k) = b"
    using k(3) by (simp add: updateNode_header[OF m])
  ultimately show "b \<in> toggleButtons (updateNode x f n)"
    unfolding toggleButtons_def querySelectorAll_def by force
qed

lemma toggleButtons_empty_iff:
  "toggleButtons n = {} \<longleftrightarrow> querySelector [''code-expand-btn''] n = None"
  by (simp add: toggleButtons_def querySelector_def split: list.splits)

lemma extends_refl: "extends s s"
  by (simp add: extends_def)

lemma extends_trans: "extends s t \<Longrightarrow> extends t u \<Longrightarrow> extends s u"
proof -
  assume st: "extends s t" and tu: "extends t u"
  have "\<exists>n'. lookupNode y u = Some n' \<and> nodeType n' = nodeType n \<and> classList n' = classList n \<and>
          map nodeId (querySelectorAll [''cm-editor''] n') = map nodeId (querySelectorAll [''cm-editor''] n) \<and>
          toggleButtons n \<subseteq> toggleButtons n'"
    if y: "lookupNode y s = Some n" for y n
  proof -
    from st y obtain n1 where n1: "lookupNode y t = Some n1" "nodeType n1 = nodeType n"
      "classList n1 = classList n"
      "map nodeId (querySelectorAll [''cm-editor''] n1) = map nodeId (querySelectorAll [''cm-editor''] n)"
      "toggleButtons n \<subseteq> toggleButtons n1"
      unfolding extends_def by blast
    from tu n1(1) obtain n2 where n2: "lookupNode y u = Some n2" "nodeType n2 = nodeType n1"
      "classList n2 = classList n1"
      "map nodeId (querySelectorAll [''cm-editor''] n2) = map nodeId (querySelectorAll [''cm-editor''] n1)"
      "toggleButtons n1 \<subseteq> toggleButtons n2"
      unfolding extends_def by blast
    show ?thesis using n1 n2 by auto
  qed
  moreover have "map nodeId (querySelectorAll [''cm-editor''] (document u)) =
        map nodeId (querySelectorAll [''cm-editor''] (document s))"
    using st tu unfolding extends_def by simp
  moreover have "observedCodeBlocks s \<subseteq> observedCodeBlocks u"
    using st tu unfolding extends_def by blast
  ultimately show ?thesis unfolding extends_def by blast
qed

lemma extends_updatePage:
  assumes m: "mutator f extra"
    and e: "\<forall>e\<in>set extra. childNodes e = [] \<and> freshId s \<le> nodeId e \<and> \<not> matches [''cm-editor''] e"
  shows "extends s (updatePage x f s)"
proof -
  have ed: "\<forall>e\<in>set extra. filter (matches [''cm-editor'']) (subtree e) = []"
    using e by (simp add: subtree_unfold)
  have look: "\<exists>n'. lookupNode y (updatePage x f s) = Some n' \<and> nodeType n' = nodeType n \<and>
          classList n' = classList n \<and>
          map nodeId (querySelectorAll [''cm-editor''] n') = map nodeId (querySelectorAll [''cm-editor''] n) \<and>
          toggleButtons n \<subseteq> toggleButtons n'"
    if y: "lookupNode y s = Some n" for y n
  proof -
    have "y < freshId s" using y by (rule lookupNode_fresh)
    then have "\<forall>e\<in>set extra. pathTo y e = []"
      using e by (auto simp: pathTo_unfold[of y])
    then have "lookupNode y (updatePage x f s) = Some (updateNode x f n)"
      using lookupNode_updatePage[OF m] y by simp
    moreover have "toggleButtons n \<subseteq> toggleButtons (updateNode x f n)"
      by (rule toggleButtons_updateNode_mono[OF m])
    ultimately show ?thesis
      by (simp add: updateNode_header[OF m] querySelectorAll_ids_updateNode[OF m ed])
  qed
  show ?thesis
    unfolding extends_def
    using look by (simp add: querySelectorAll_ids_updateNode[OF m ed])
qed

lemma setId_fields [simp]:
  "href (setId x v s) = href s"
  "isCurrentlyEditPage (setId x v s) = isCurrentlyEditPage s"
  "mutationObserverActive (setId x v s) = mutationObserverActive s"
  "observedCodeBlocks (setId x v s) = observedCodeBlocks s"
  "resizeObserveCalls (setId x v s) = resizeObserveCalls s"
  "mutationObserverCalls (setId x v s) = mutationObserverCalls s"
  "frameCallbacks (setId x v s) = frameCallbacks s"
  "scrollIntoViewCalls (setId x v s) = scrollIntoViewCalls s"
  "consoleErrors (setId x v s) = consoleErrors s"
  by (simp_all add: setId_def)

lemma setStyleHeight_fields [simp]:
  "href (setStyleHeight x v s) = href s"
  "isCurrentlyEditPage (setStyleHeight x v s) = isCurrentlyEditPage s"
  "mutationObserverActive (setStyleHeight x v s) = mutationObserverActive s"
  "observedCodeBlocks (setStyleHeight x v s) = observedCodeBlocks s"
  "resizeObserveCalls (setStyleHeight x v s) = resizeObserveCalls s"
  "mutationObserverCalls (setStyleHeight x v s) = mutationObserverCalls s"
  "frameCallbacks (setStyleHeight x v s) = frameCallbacks s"
  "scrollIntoViewCalls (setStyleHeight x v s) = scrollIntoViewCalls s"
  "consoleErrors (setStyleHeight x v s) = consoleErrors s"
  by (simp_all add: setStyleHeight_def)

lemma appendChild_fields [simp]:
  "href (appendChild x k s) = href s"
  "isCurrentlyEditPage (appendChild x k s) = isCurrentlyEditPage s"
  "mutationObserverActive (appendChild x k s) = mutationObserverActive s"
  "observedCodeBlocks (appendChild x k s) = observedCodeBlocks s"
  "resizeObserveCalls (appendChild x k s) = resizeObserveCalls s"
  "mutationObserverCalls (appendChild x k s) = mutationObserverCalls s"
  "frameCallbacks (appendChild x k s) = frameCallbacks s"
  "scrollIntoViewCalls (appendChild x k s) = scrollIntoViewCalls s"
  "consoleErrors (appendChild x k s) = consoleErrors s"
  by (simp_all add: appendChild_def)

lemma extends_setId: "extends s (setId x v s)"
  unfolding setId_def by (rule extends_updatePage[OF mutator_withId]) simp

lemma extends_setStyleHeight: "extends s (setStyleHeight x v s)"
  unfolding setStyleHeight_def by (rule extends_updatePage[OF mutator_withStyleHeight]) simp

lemma extends_appendChild_btn: "extends s (appendChild x (createExpandBtn s) s)"
  unfolding appendChild_def
  by (rule extends_updatePage[OF mutator_withChild]) (simp add: createExpandBtn_def matches_def)

lemma extends_fields:
  "document s' = document s \<Longrightarrow> detached s' = detached s \<Longrightarrow>
   observedCodeBlocks s \<subseteq> observedCodeBlocks s' \<Longrightarrow> extends s s'"
  by (simp add: extends_def lookupNode_def pathIn_def)

lemma updateCodeBlock_fields [simp]:
  "href (updateCodeBlock x s) = href s"
  "isCurrentlyEditPage (updateCodeBlock x s) = isCurrentlyEditPage s"
  "mutationObserverActive (updateCodeBlock x s) = mutationObserverActive s"
  "observedCodeBlocks (updateCodeBlock x s) = observedCodeBlocks s"
  "resizeObserveCalls (updateCodeBlock x s) = resizeObserveCalls s"
  "mutationObserverCalls (updateCodeBlock x s) = mutationObserverCalls s"
  "frameCallbacks (updateCodeBlock x s) = frameCallbacks s"
  "scrollIntoViewCalls (updateCodeBlock x s) = scrollIntoViewCalls s"
  "consoleErrors (updateCodeBlock x s) = consoleErrors s"
  by (simp_all add: updateCodeBlock_def Let_def split: option.splits)

lemma extends_updateCodeBlock: "extends s (updateCodeBlock x s)"
proof -
  let ?s1 = "setId x ''collapsed'' s"
  let ?s2 = "setStyleHeight x (showNat COLLAPSED_HEIGHT @ ''px'') ?s1"
  have "extends s (appendChild x (createExpandBtn ?s2) ?s2)"
    by (rule extends_trans[OF extends_setId], rule extends_trans[OF extends_setStyleHeight])
       (rule extends_appendChild_btn)
  then show ?thesis
    by (simp add: updateCodeBlock_def Let_def extends_refl split: option.splits)
qed

lemma initializeCodeBlock_fields [simp]:
  "href (initializeCodeBlock x s) = href s"
  "isCurrentlyEditPage (initializeCodeBlock x s) = isCurrentlyEditPage s"
  "mutationObserverActive (initializeCodeBlock x s) = mutationObserverActive s"
  "mutationObserverCalls (initializeCodeBlock x s) = mutationObserverCalls s"
  "frameCallbacks (initializeCodeBlock x s) = frameCallbacks s"
  "scrollIntoViewCalls (initializeCodeBlock x s) = scrollIntoViewCalls s"
  "consoleErrors (initializeCodeBlock x s) = consoleErrors s"
  by (simp_all add: initializeCodeBlock_def split: option.splits)

lemma extends_initializeCodeBlock: "extends s (initializeCodeBlock x s)"
proof -
  let ?t = "s\<lparr>observedCodeBlocks := insert x (observedCodeBlocks s),
              resizeObserveCalls := resizeObserveCalls s @ [x]\<rparr>"
  have "extends s ?t" by (rule extends_fields) auto
  then have "extends s (updateCodeBlock x ?t)"
    by (rule extends_trans) (rule extends_updateCodeBlock)
  then show ?thesis
    by (simp add: initializeCodeBlock_def extends_refl split: option.splits)
qed

lemma extends_fold:
  assumes "\<And>x s. extends s (g x s)"
  shows "extends s (fold g xs s)"
proof (induction xs arbitrary: s)
  case (Cons a as)
  have "extends s (g a s)" by (rule assms)
  then show ?case using Cons.IH[of "g a s"] by (simp add: extends_trans)
qed (simp add: extends_refl)

lemma fold_field:
  assumes "\<And>x s. fld (g x s) = fld s"
  shows "fld (fold g xs s) = fld s"
  by (induction xs arbitrary: s) (simp_all add: assms)

lemma settled_initializeCodeBlock_id: "settled x s \<Longrightarrow> initializeCodeBlock x s = s"
  by (auto simp: settled_def initializeCodeBlock_def split: option.splits)

lemma settled_extends: "settled x s \<Longrightarrow> extends s s' \<Longrightarrow> settled x s'"
proof -
  assume a: "settled x s" and e: "extends s s'"
  from a obtain n where n: "lookupNode x s = Some n"
    "x \<in> observedCodeBlocks s \<or> \<not> classContains n ''cm-editor''"
    by (auto simp: settled_def split: option.splits)
  from e n(1) obtain n' where n': "lookupNode x s' = Some n'" "nodeType n' = nodeType n"
    "classList n' = classList n"
    unfolding extends_def by blast
  have "observedCodeBlocks s \<subseteq> observedCodeBlocks s'" using e unfolding extends_def by blast
  then show ?thesis using n n' by (auto simp: settled_def classContains_def)
qed

lemma lookupNode_extends: "lookupNode x s \<noteq> None \<Longrightarrow> extends s s' \<Longrightarrow> lookupNode x s' \<noteq> None"
  unfolding extends_def by fastforce

lemma initializeCodeBlock_settles:
  assumes "lookupNode x s \<noteq> None"
  shows "settled x (initializeCodeBlock x s)"
proof -
  obtain n where n: "lookupNode x s = Some n" using assms by blast
  show ?thesis
  proof (cases "x \<in> observedCodeBlocks s \<or> \<not> classContains n ''cm-editor''")
    case True
    then show ?thesis using n by (auto simp: settled_def initializeCodeBlock_def)
  next
    case False
    let ?t = "s\<lparr>observedCodeBlocks := insert x (observedCodeBlocks s),
                resizeObserveCalls := resizeObserveCalls s @ [x]\<rparr>"
    have eq: "initializeCodeBlock x s = updateCodeBlock x ?t"
      using False n by (simp add: initializeCodeBlock_def)
    have "lookupNode x (initializeCodeBlock x s) \<noteq> None"
      using assms extends_initializeCodeBlock by (rule lookupNode_extends)
    moreover have "x \<in> observedCodeBlocks (initializeCodeBlock x s)"
      unfolding eq by simp
    ultimately show ?thesis by (auto simp: settled_def)
  qed
qed

lemma fold_initialize_settles:
  "\<forall>x\<in>set xs. lookupNode x s \<noteq> None \<Longrightarrow>
   \<forall>x\<in>set xs. settled x (fold initializeCodeBlock xs s)"
proof (induction xs arbitrary: s)
  case (Cons a as)
  let ?s1 = "initializeCodeBlock a s"
  have e1: "extends s ?s1" by (rule extends_initializeCodeBlock)
  have e2: "extends ?s1 (fold initializeCodeBlock as ?s1)"
    by (rule extends_fold) (rule extends_initializeCodeBlock)
  have "\<forall>x\<in>set as. lookupNode x ?s1 \<noteq> None"
    using Cons.prems lookupNode_extends[OF _ e1] by simp
  then have rest: "\<forall>x\<in>set as. settled x (fold initializeCodeBlock as ?s1)"
    by (rule Cons.IH)
  have "settled a ?s1" using Cons.prems by (simp add: initializeCodeBlock_settles)
  then have "settled a (fold initializeCodeBlock as ?s1)" using e2 by (rule settled_extends)
  then show ?case using rest by simp
qed simp

lemma fold_initialize_settled_id:
  "\<forall>x\<in>set xs. settled x s \<Longrightarrow> fold initializeCodeBlock xs s = s"
  by (induction xs) (simp_all add: settled_initializeCodeBlock_id)

lemma firstNonEmpty_nonempty: "p \<in> set ps \<Longrightarrow> p \<noteq> [] \<Longrightarrow> firstNonEmpty ps \<noteq> []"
  by (induction ps) auto

lemma pathTo_nonempty: "n \<in> set (subtree t) \<Longrightarrow> pathTo (nodeId n) t \<noteq> []"
proof (induction t)
  case (Node i t c d h sh ks)
  show ?case
  proof (cases "i = nodeId n")
    case False
    then obtain k where k: "k \<in> set ks" "n \<in> set (subtree k)"
      using Node.prems by (auto simp: subtree.simps)
    then have "pathTo (nodeId n) k \<noteq> []" by (rule Node.IH)
    then have "firstNonEmpty (map (pathTo (nodeId n)) ks) \<noteq> []"
      using k(1) firstNonEmpty_nonempty[of "pathTo (nodeId n) k" "map (pathTo (nodeId n)) ks"] by simp
    then show ?thesis by (simp add: pathTo.simps split: list.splits)
  qed (simp add: pathTo.simps)
qed

lemma lookupNode_present: "n \<in> set (allNodes s) \<Longrightarrow> lookupNode (nodeId n) s \<noteq> None"
proof -
  assume "n \<in> set (allNodes s)"
  then obtain t where t: "t \<in> set (document s # detached s)" "n \<in> set (subtree t)"
    unfolding allNodes_def by auto
  then have "pathTo (nodeId n) t \<noteq> []" using pathTo_nonempty by blast
  then have "pathIn (nodeId n) s \<noteq> []"
    unfolding pathIn_def using t(1)
    by (intro firstNonEmpty_nonempty[of "pathTo (nodeId n) t"]) auto
  then show ?thesis by (simp add: lookupNode_def split: list.splits)
qed

lemma descendants_subset_subtree: "set (descendants n) \<subseteq> set (subtree n)"
  by (subst subtree_unfold) (auto simp: descendants_def)

lemma subtree_trans: "k \<in> set (subtree n) \<Longrightarrow> n \<in> set (subtree t) \<Longrightarrow> k \<in> set (subtree t)"
proof (induction t)
  case (Node i ty c d h sh ks)
  show ?case
  proof (cases "n = Node i ty c d h sh ks")
    case False
    then obtain j where "j \<in> set ks" "n \<in> set (subtree j)"
      using Node.prems(2) by (auto simp: subtree.simps)
    then show ?thesis using Node.IH Node.prems(1) by (auto simp: subtree.simps)
  qed (use Node.prems in simp)
qed

lemma subtree_allNodes: "n \<in> set (allNodes s) \<Longrightarrow> k \<in> set (subtree n) \<Longrightarrow> k \<in> set (allNodes s)"
  unfolding allNodes_def using subtree_trans by auto

lemma document_editors_present:
  "x \<in> set (map nodeId (querySelectorAll sel (document s))) \<Longrightarrow> lookupNode x s \<noteq> None"
proof -
  assume "x \<in> set (map nodeId (querySelectorAll sel (document s)))"
  then obtain n where n: "n \<in> set (descendants (document s))" "nodeId n = x"
    by (auto simp: querySelectorAll_def)
  then have "n \<in> set (allNodes s)"
    using descendants_subset_subtree[of "document s"] by (auto simp: allNodes_def)
  then show ?thesis using lookupNode_present n(2) by blast
qed

lemma initializeAllCodeBlocks_idem:
  "initializeAllCodeBlocks (initializeAllCodeBlocks s) = initializeAllCodeBlocks s"
proof (cases "isCurrentlyEditPage s")
  case True
  then show ?thesis by (simp add: initializeAllCodeBlocks_def)
next
  case False
  let ?ids = "map nodeId (querySelectorAll [''cm-editor''] (document s))"
  let ?s' = "fold initializeCodeBlock ?ids s"
  have s': "initializeAllCodeBlocks s = ?s'" using False by (simp add: initializeAllCodeBlocks_def)
  have ext: "extends s ?s'" by (rule extends_fold) (rule extends_initializeCodeBlock)
  then have ids: "map nodeId (querySelectorAll [''cm-editor''] (document ?s')) = ?ids"
    unfolding extends_def by blast
  have flag: "\<not> isCurrentlyEditPage ?s'"
    using False by (simp add: fold_field[of isCurrentlyEditPage])
  have "\<forall>x\<in>set ?ids. lookupNode x s \<noteq> None" using document_editors_present by blast
  then have "\<forall>x\<in>set ?ids. settled x ?s'" by (rule fold_initialize_settles)
  then have "fold initializeCodeBlock ?ids ?s' = ?s'" by (rule fold_initialize_settled_id)
  then have "initializeAllCodeBlocks ?s' = ?s'"
    using flag ids by (simp add: initializeAllCodeBlocks_def)
  then show ?thesis by (simp only: s')
qed

section \<open>The click path does not read the route\<close>

lemma atRoute_reads [simp]:
  "pathIn y (atRoute u e s) = pathIn y s"
  "lookupNode y (atRoute u e s) = lookupNode y s"
  "closest sel y (atRoute u e s) = closest sel y s"
  "parentElement y (atRoute u e s) = parentElement y s"
  "frameCallbacks (atRoute u e s) = frameCallbacks s"
  "scrollIntoViewCalls (atRoute u e s) = scrollIntoViewCalls s"
  "consoleErrors (atRoute u e s) = consoleErrors s"
  by (simp_all add: atRoute_def pathIn_def lookupNode_def closest_def parentElement_def)

lemma atRoute_writes [simp]:
  "updatePage x f (atRoute u e s) = atRoute u e (updatePage x f s)"
  "(atRoute u e s)\<lparr>frameCallbacks := cbs\<rparr> = atRoute u e (s\<lparr>frameCallbacks := cbs\<rparr>)"
  "(atRoute u e s)\<lparr>scrollIntoViewCalls := v\<rparr> = atRoute u e (s\<lparr>scrollIntoViewCalls := v\<rparr>)"
  "(atRoute u e s)\<lparr>consoleErrors := w\<rparr> = atRoute u e (s\<lparr>consoleErrors := w\<rparr>)"
  by (simp_all add: atRoute_def updatePage_def)

lemma atRoute_sets [simp]:
  "setId x v (atRoute u e s) = atRoute u e (setId x v s)"
  "setStyleHeight x v (atRoute u e s) = atRoute u e (setStyleHeight x v s)"
  by (simp_all add: setId_def setStyleHeight_def)

lemma toggleFrame_route: "toggleFrame cb (atRoute u e s) = atRoute u e (toggleFrame cb s)"
proof (cases cb)
  case (fields r b c)
  show ?thesis
  proof (cases c)
    case True
    then show ?thesis using fields
      by (cases "lookupNode r s"; cases "querySelector [''cm-scroller''] (the (lookupNode r s))")
         (simp_all add: toggleFrame_def)
  next
    case False
    let ?s3 = "setId b ''collapsed'' (setId r ''collapsed'' (setStyleHeight r (showNat COLLAPSED_HEIGHT @ ''px'') s))"
    show ?thesis using False fields
      by (cases "closest [''relative'', ''my-2''] r ?s3";
          cases "parentElement (nodeId (the (closest [''relative'', ''my-2''] r ?s3))) ?s3")
         (simp_all add: toggleFrame_def)
  qed
qed

lemma fold_toggleFrame_route:
  "fold toggleFrame cbs (atRoute u e s) = atRoute u e (fold toggleFrame cbs s)"
  by (induction cbs arbitrary: s) (simp_all add: toggleFrame_route)

lemma runAnimationFrame_route:
  "runAnimationFrame (atRoute u e s) = atRoute u e (runAnimationFrame s)"
  by (simp add: runAnimationFrame_def fold_toggleFrame_route)

lemma clickListener_route:
  "clickListener t (atRoute u e s) = map_sum id (atRoute u e) (clickListener t s)"
  by (simp add: clickListener_def Let_def split: option.splits)

lemma click_route: "click t (atRoute u e s) = atRoute u e (click t s)"
  by (cases "clickListener t s") (simp_all add: click_def clickListener_route)

section \<open>Route change detection\<close>

lemma atObserver_reads [simp]:
  "pathIn y (atObserver c a s) = pathIn y s"
  "lookupNode y (atObserver c a s) = lookupNode y s"
  "allNodes (atObserver c a s) = allNodes s"
  "freshId (atObserver c a s) = freshId s"
  "createExpandBtn (atObserver c a s) = createExpandBtn s"
  "document (atObserver c a s) = document s"
  "observedCodeBlocks (atObserver c a s) = observedCodeBlocks s"
  "resizeObserveCalls (atObserver c a s) = resizeObserveCalls s"
  "isCurrentlyEditPage (atObserver c a s) = isCurrentlyEditPage s"
  "href (atObserver c a s) = href s"
  "mutationObserverActive (atObserver c a s) = a"
  "mutationObserverCalls (atObserver c a s) = c"
  by (simp_all add: atObserver_def pathIn_def lookupNode_def allNodes_def freshId_def createExpandBtn_def)

lemma atObserver_writes [simp]:
  "updatePage x f (atObserver c a s) = atObserver c a (updatePage x f s)"
  "(atObserver c a s)\<lparr>observedCodeBlocks := t, resizeObserveCalls := r\<rparr>
     = atObserver c a (s\<lparr>observedCodeBlocks := t, resizeObserveCalls := r\<rparr>)"
  "(atObserver c a s)\<lparr>isCurrentlyEditPage := e\<rparr> = atObserver c a (s\<lparr>isCurrentlyEditPage := e\<rparr>)"
  by (simp_all add: atObserver_def updatePage_def)

lemma atObserver_sets [simp]:
  "setId x v (atObserver c a s) = atObserver c a (setId x v s)"
  "setStyleHeight x v (atObserver c a s) = atObserver c a (setStyleHeight x v s)"
  "appendChild x k (atObserver c a s) = atObserver c a (appendChild x k s)"
  by (simp_all add: setId_def setStyleHeight_def appendChild_def)

lemma updateCodeBlock_observer:
  "updateCodeBlock x (atObserver c a s) = atObserver c a (updateCodeBlock x s)"
  by (cases "lookupNode x s") (simp_all add: updateCodeBlock_def Let_def)

lemma initializeCodeBlock_observer:
  "initializeCodeBlock x (atObserver c a s) = atObserver c a (initializeCodeBlock x s)"
  by (cases "lookupNode x s") (simp_all add: initializeCodeBlock_def updateCodeBlock_observer)

lemma fold_initializeCodeBlock_observer:
  "fold initializeCodeBlock xs (atObserver c a s) = atObserver c a (fold initializeCodeBlock xs s)"
  by (induction xs arbitrary: s) (simp_all add: initializeCodeBlock_observer)

lemma initializeAllCodeBlocks_observer:
  "initializeAllCodeBlocks (atObserver c a s) = atObserver c a (initializeAllCodeBlocks s)"
  by (simp add: initializeAllCodeBlocks_def fold_initializeCodeBlock_observer)

lemma initializeAllCodeBlocks_fields [simp]:
  "href (initializeAllCodeBlocks s) = href s"
  "isCurrentlyEditPage (initializeAllCodeBlocks s) = isCurrentlyEditPage s"
  "mutationObserverActive (initializeAllCodeBlocks s) = mutationObserverActive s"
  "mutationObserverCalls (initializeAllCodeBlocks s) = mutationObserverCalls s"
  "frameCallbacks (initializeAllCodeBlocks s) = frameCallbacks s"
  "scrollIntoViewCalls (initializeAllCodeBlocks s) = scrollIntoViewCalls s"
  "consoleErrors (initializeAllCodeBlocks s) = consoleErrors s"
  by (simp_all add: initializeAllCodeBlocks_def fold_field[of href] fold_field[of isCurrentlyEditPage]
      fold_field[of mutationObserverActive] fold_field[of mutationObserverCalls]
      fold_field[of frameCallbacks] fold_field[of scrollIntoViewCalls] fold_field[of consoleErrors])

lemma checkIsEditPage_cong: "href s' = href s \<Longrightarrow> checkIsEditPage s' = checkIsEditPage s"
  by (simp add: checkIsEditPage_def)

lemma onRouteChange_edit:
  "checkIsEditPage s \<Longrightarrow>
   onRouteChange s =
     (if mutationObserverActive s
      then atObserver (mutationObserverCalls s @ [Disconnect]) False (s\<lparr>isCurrentlyEditPage := True\<rparr>)
      else s\<lparr>isCurrentlyEditPage := True\<rparr>)"
  by (simp add: onRouteChange_def atObserver_def)

lemma onRouteChange_other:
  "\<not> checkIsEditPage s \<Longrightarrow>
   onRouteChange s =
     (let s2 = initializeAllCodeBlocks (s\<lparr>isCurrentlyEditPage := False\<rparr>)
      in if mutationObserverActive s then s2
         else atObserver (mutationObserverCalls s @ [Observe]) True s2)"
  by (simp add: onRouteChange_def atObserver_def Let_def)

lemma flag_update_same: "isCurrentlyEditPage r = e \<Longrightarrow> r\<lparr>isCurrentlyEditPage := e\<rparr> = r"
  by (cases r) simp

lemma scan_clear_flag:
  "\<not> isCurrentlyEditPage t \<Longrightarrow>
   (initializeAllCodeBlocks t)\<lparr>isCurrentlyEditPage := False\<rparr> = initializeAllCodeBlocks t"
  by (rule flag_update_same) simp

lemma onRouteChange_flag: "isCurrentlyEditPage (onRouteChange s) = checkIsEditPage s"
  by (cases "checkIsEditPage s") (simp_all add: onRouteChange_edit onRouteChange_other Let_def)

lemma onRouteChange_href: "href (onRouteChange s) = href s"
  by (cases "checkIsEditPage s") (simp_all add: onRouteChange_edit onRouteChange_other Let_def)

lemma onRouteChange_idem: "onRouteChange (onRouteChange s) = onRouteChange s"
proof (cases "checkIsEditPage s")
  case True
  have c: "checkIsEditPage (onRouteChange s)"
    using True by (simp add: checkIsEditPage_cong[OF onRouteChange_href])
  have fl: "(onRouteChange s)\<lparr>isCurrentlyEditPage := True\<rparr> = onRouteChange s"
    by (rule flag_update_same) (simp add: onRouteChange_flag True)
  have act: "\<not> mutationObserverActive (onRouteChange s)"
    by (simp add: onRouteChange_edit[OF True])
  show ?thesis
    unfolding onRouteChange_edit[OF c] fl using act by simp
next
  case False
  let ?t = "s\<lparr>isCurrentlyEditPage := False\<rparr>"
  let ?s2 = "initializeAllCodeBlocks ?t"
  have c: "\<not> checkIsEditPage (onRouteChange s)"
    using False by (simp add: checkIsEditPage_cong[OF onRouteChange_href])
  have act: "mutationObserverActive (onRouteChange s)"
    by (simp add: onRouteChange_other[OF False] Let_def)
  have fl: "(onRouteChange s)\<lparr>isCurrentlyEditPage := False\<rparr> = onRouteChange s"
    by (rule flag_update_same) (simp add: onRouteChange_flag False)
  have idem: "initializeAllCodeBlocks (onRouteChange s) = onRouteChange s"
    by (simp add: onRouteChange_other[OF False] Let_def initializeAllCodeBlocks_observer
        initializeAllCodeBlocks_idem)
  show ?thesis
    unfolding onRouteChange_other[OF c] fl idem using act by (simp add: Let_def)
qed

lemma onRouteChange_stable:
  assumes "isCurrentlyEditPage s = checkIsEditPage s"
    and "mutationObserverActive s = (\<not> isCurrentlyEditPage s)"
  shows "onRouteChange s = initializeAllCodeBlocks s"
proof (cases "checkIsEditPage s")
  case True
  have e: "s\<lparr>isCurrentlyEditPage := True\<rparr> = s"
    by (rule flag_update_same) (use assms True in simp)
  have "\<not> mutationObserverActive s" "isCurrentlyEditPage s" using assms True by simp_all
  then show ?thesis
    unfolding onRouteChange_edit[OF True] e by (simp add: initializeAllCodeBlocks_def)
next
  case False
  have e: "s\<lparr>isCurrentlyEditPage := False\<rparr> = s"
    by (rule flag_update_same) (use assms False in simp)
  have "mutationObserverActive s" using assms False by simp
  then show ?thesis
    unfolding onRouteChange_other[OF False] e by (simp add: Let_def)
qed

section \<open>Every reaction only extends the page\<close>

lemma mutator_withScrollHeight: "mutator (withScrollHeight v) []"
  by (simp add: mutator_def withScrollHeight_def)

lemma extends_relayout: "extends s (relayout x v s)"
  unfolding relayout_def by (rule extends_updatePage[OF mutator_withScrollHeight]) simp

lemma extends_resizeEntry: "extends s (resizeEntry x s)"
  by (cases "lookupNode x s") (simp_all add: resizeEntry_def extends_refl extends_updateCodeBlock)

lemma extends_resizeObserverCallback: "extends s (resizeObserverCallback entries s)"
  by (simp add: resizeObserverCallback_def extends_refl extends_fold extends_resizeEntry)

lemma extends_processAddedNode: "extends s (processAddedNode x s)"
  by (cases "lookupNode x s")
     (simp_all add: processAddedNode_def extends_refl extends_initializeCodeBlock extends_fold)

lemma extends_mutationObserverCallback: "extends s (mutationObserverCallback mutations s)"
  by (simp add: mutationObserverCallback_def extends_refl extends_fold extends_processAddedNode)

lemma extends_initializeAllCodeBlocks: "extends s (initializeAllCodeBlocks s)"
  by (simp add: initializeAllCodeBlocks_def extends_refl extends_fold extends_initializeCodeBlock)

lemma extends_toggleFrame: "extends s (toggleFrame cb s)"
proof (cases cb)
  case (fields r b c)
  show ?thesis
  proof (cases c)
    case True
    have "extends s (setId b ''expanded'' (setId r ''expanded'' (setStyleHeight r v s)))" for v
      by (rule extends_trans[OF extends_setStyleHeight], rule extends_trans[OF extends_setId])
         (rule extends_setId)
    then show ?thesis using True fields
      by (cases "lookupNode r s"; cases "querySelector [''cm-scroller''] (the (lookupNode r s))")
         (simp_all add: toggleFrame_def)
  next
    case False
    let ?s3 = "setId b ''collapsed'' (setId r ''collapsed'' (setStyleHeight r (showNat COLLAPSED_HEIGHT @ ''px'') s))"
    have e3: "extends s ?s3"
      by (rule extends_trans[OF extends_setStyleHeight], rule extends_trans[OF extends_setId])
         (rule extends_setId)
    have "extends ?s3 (?s3\<lparr>scrollIntoViewCalls := w\<rparr>)" for w
      by (rule extends_fields) simp_all
    then have "extends s (?s3\<lparr>scrollIntoViewCalls := w\<rparr>)" for w
      using e3 extends_trans by blast
    then show ?thesis using False fields e3
      by (cases "closest [''relative'', ''my-2''] r ?s3";
          cases "parentElement (nodeId (the (closest [''relative'', ''my-2''] r ?s3))) ?s3")
         (simp_all add: toggleFrame_def)
  qed
qed

lemma extends_runAnimationFrame: "extends s (runAnimationFrame s)"
proof -
  have "extends s (s\<lparr>frameCallbacks := []\<rparr>)" by (rule extends_fields) simp_all
  moreover have "extends (s\<lparr>frameCallbacks := []\<rparr>) (fold toggleFrame cbs (s\<lparr>frameCallbacks := []\<rparr>))" for cbs
    by (rule extends_fold) (rule extends_toggleFrame)
  ultimately show ?thesis unfolding runAnimationFrame_def using extends_trans by blast
qed

lemma clickListener_cases:
  "clickListener t s = Inl TypeError \<or> clickListener t s = Inr s \<or>
   (\<exists>cb. clickListener t s = Inr (s\<lparr>frameCallbacks := frameCallbacks s @ [cb]\<rparr>))"
  by (cases "lookupNode t s"; cases "closest [''cm-editor''] t s") (auto simp: clickListener_def Let_def)

lemma click_cases:
  "click t s = s\<lparr>consoleErrors := consoleErrors s @ [TypeError]\<rparr> \<or> click t s = s \<or>
   (\<exists>cb. click t s = s\<lparr>frameCallbacks := frameCallbacks s @ [cb]\<rparr>)"
proof -
  consider "clickListener t s = Inl TypeError" | "clickListener t s = Inr s"
    | cb where "clickListener t s = Inr (s\<lparr>frameCallbacks := frameCallbacks s @ [cb]\<rparr>)"
    using clickListener_cases[of t s] by blast
  then show ?thesis
  proof cases
    case 1
    then show ?thesis by (simp add: click_def)
  next
    case 2
    then show ?thesis by (simp add: click_def)
  next
    case 3
    then have "click t s = s\<lparr>frameCallbacks := frameCallbacks s @ [cb]\<rparr>" by (simp add: click_def)
    then show ?thesis by blast
  qed
qed

lemma extends_click: "extends s (click t s)"
  using click_cases[of t s] by (auto simp: extends_refl intro: extends_fields)

lemma extends_onRouteChange: "extends s (onRouteChange s)"
proof -
  have a: "extends s (s\<lparr>isCurrentlyEditPage := e\<rparr>)" for e by (rule extends_fields) simp_all
  have b: "extends t (atObserver c a t)" for t c a by (rule extends_fields) (simp_all add: atObserver_def)
  have c: "extends s (initializeAllCodeBlocks (s\<lparr>isCurrentlyEditPage := e\<rparr>))" for e
    using a extends_initializeAllCodeBlocks extends_trans by blast
  show ?thesis
    by (cases "checkIsEditPage s")
       (auto simp: onRouteChange_edit onRouteChange_other Let_def a c intro: extends_trans[OF _ b])
qed

lemma extends_init: "extends s (init s)"
proof -
  have a: "extends s (s\<lparr>isCurrentlyEditPage := e\<rparr>)" for e by (rule extends_fields) simp_all
  have c: "extends s (initializeAllCodeBlocks (s\<lparr>isCurrentlyEditPage := e\<rparr>))" for e
    using a extends_initializeAllCodeBlocks extends_trans by blast
  have b: "extends t (t\<lparr>mutationObserverCalls := cs, mutationObserverActive := True\<rparr>)" for t cs
    by (rule extends_fields) simp_all
  show ?thesis
    by (cases "checkIsEditPage s") (auto simp: init_def Let_def a intro: extends_trans[OF c b])
qed

lemma extends_navigate: "extends s (onRouteChange (s\<lparr>href := u\<rparr>))"
proof -
  have "extends s (s\<lparr>href := u\<rparr>)" by (rule extends_fields) simp_all
  then show ?thesis using extends_onRouteChange extends_trans by blast
qed

lemma extends_react: "extends s (react e s)"
  by (cases e)
     (simp_all add: extends_init pushState_def popstate_def extends_navigate
        extends_resizeObserverCallback extends_mutationObserverCallback extends_click
        extends_runAnimationFrame extends_relayout)

lemma extends_run: "extends s (fold react es s)"
  by (rule extends_fold) (rule extends_react)

lemma hasToggleButton_extends: "hasToggleButton x s \<Longrightarrow> extends s s' \<Longrightarrow> hasToggleButton x s'"
proof -
  assume h: "hasToggleButton x s" and e: "extends s s'"
  from h obtain n where n: "lookupNode x s = Some n" "querySelector [''code-expand-btn''] n \<noteq> None"
    by (auto simp: hasToggleButton_def split: option.splits)
  from e n(1) obtain n' where n': "lookupNode x s' = Some n'" "toggleButtons n \<subseteq> toggleButtons n'"
    unfolding extends_def by blast
  have "toggleButtons n \<noteq> {}" using n(2) by (simp add: toggleButtons_empty_iff)
  then have "toggleButtons n' \<noteq> {}" using n'(2) by blast
  then show ?thesis using n'(1) by (simp add: hasToggleButton_def toggleButtons_empty_iff)
qed

lemma toggleButtonsOf_extends: "extends s s' \<Longrightarrow> toggleButtonsOf x s \<subseteq> toggleButtonsOf x s'"
proof (cases "lookupNode x s")
  case None
  then show ?thesis by (simp add: toggleButtonsOf_def)
next
  case (Some n)
  assume "extends s s'"
  then obtain n' where "lookupNode x s' = Some n'" "toggleButtons n \<subseteq> toggleButtons n'"
    using Some unfolding extends_def by blast
  then show ?thesis using Some by (simp add: toggleButtonsOf_def)
qed

section \<open>The observer flag and the observer\<close>

lemma resizeObserverCallback_observer [simp]:
  "mutationObserverCalls (resizeObserverCallback entries s) = mutationObserverCalls s"
  "mutationObserverActive (resizeObserverCallback entries s) = mutationObserverActive s"
proof -
  have "mutationObserverCalls (resizeEntry x t) = mutationObserverCalls t"
       "mutationObserverActive (resizeEntry x t) = mutationObserverActive t" for x t
    by (cases "lookupNode x t"; simp add: resizeEntry_def)+
  then show "mutationObserverCalls (resizeObserverCallback entries s) = mutationObserverCalls s"
    "mutationObserverActive (resizeObserverCallback entries s) = mutationObserverActive s"
    by (simp_all add: resizeObserverCallback_def fold_field[of mutationObserverCalls]
        fold_field[of mutationObserverActive])
qed

lemma processAddedNode_observer [simp]:
  "mutationObserverCalls (processAddedNode x s) = mutationObserverCalls s"
  "mutationObserverActive (processAddedNode x s) = mutationObserverActive s"
  by (cases "lookupNode x s";
      simp add: processAddedNode_def fold_field[of mutationObserverCalls]
        fold_field[of mutationObserverActive])+

lemma mutationObserverCallback_observer [simp]:
  "mutationObserverCalls (mutationObserverCallback mutations s) = mutationObserverCalls s"
  "mutationObserverActive (mutationObserverCallback mutations s) = mutationObserverActive s"
proof -
  have "mutationObserverCalls (fold processAddedNode xs t) = mutationObserverCalls t"
       "mutationObserverActive (fold processAddedNode xs t) = mutationObserverActive t" for xs t
    by (simp_all add: fold_field[of mutationObserverCalls] fold_field[of mutationObserverActive])
  then show "mutationObserverCalls (mutationObserverCallback mutations s) = mutationObserverCalls s"
    "mutationObserverActive (mutationObserverCallback mutations s) = mutationObserverActive s"
    by (simp_all add: mutationObserverCallback_def fold_field[of mutationObserverCalls]
        fold_field[of mutationObserverActive])
qed

lemma toggleFrame_observer [simp]:
  "mutationObserverCalls (toggleFrame cb s) = mutationObserverCalls s"
  "mutationObserverActive (toggleFrame cb s) = mutationObserverActive s"
proof -
  obtain r b c where cb: "cb = (r, b, c)" by (cases cb)
  let ?s3 = "setId b ''collapsed'' (setId r ''collapsed'' (setStyleHeight r (showNat COLLAPSED_HEIGHT @ ''px'') s))"
  show "mutationObserverCalls (toggleFrame cb s) = mutationObserverCalls s"
    unfolding cb
    by (cases c; cases "lookupNode r s"; cases "querySelector [''cm-scroller''] (the (lookupNode r s))";
        cases "closest [''relative'', ''my-2''] r ?s3";
        cases "parentElement (nodeId (the (closest [''relative'', ''my-2''] r ?s3))) ?s3")
       (simp_all add: toggleFrame_def)
  show "mutationObserverActive (toggleFrame cb s) = mutationObserverActive s"
    unfolding cb
    by (cases c; cases "lookupNode r s"; cases "querySelector [''cm-scroller''] (the (lookupNode r s))";
        cases "closest [''relative'', ''my-2''] r ?s3";
        cases "parentElement (nodeId (the (closest [''relative'', ''my-2''] r ?s3))) ?s3")
       (simp_all add: toggleFrame_def)
qed

lemma runAnimationFrame_observer [simp]:
  "mutationObserverCalls (runAnimationFrame s) = mutationObserverCalls s"
  "mutationObserverActive (runAnimationFrame s) = mutationObserverActive s"
  by (simp_all add: runAnimationFrame_def fold_field[of mutationObserverCalls]
      fold_field[of mutationObserverActive])

lemma click_observer [simp]:
  "mutationObserverCalls (click t s) = mutationObserverCalls s"
  "mutationObserverActive (click t s) = mutationObserverActive s"
  using click_cases[of t s] by auto

lemma relayout_observer [simp]:
  "mutationObserverCalls (relayout x v s) = mutationObserverCalls s"
  "mutationObserverActive (relayout x v s) = mutationObserverActive s"
  by (simp_all add: relayout_def)

lemma finalAttach_append [simp]: "finalAttach a (cs @ [c]) = (c = Observe)"
  by (induction cs arbitrary: a) simp_all

lemma alternating_append:
  "alternating a (cs @ [c]) = (alternating a cs \<and> (c = Observe \<longleftrightarrow> \<not> finalAttach a cs))"
proof (induction cs arbitrary: a)
  case Nil
  then show ?case by (cases c) simp_all
next
  case (Cons d ds)
  then show ?case by (cases d) simp_all
qed

lemma observerConsistent_cong:
  "mutationObserverCalls s' = mutationObserverCalls s \<Longrightarrow>
   mutationObserverActive s' = mutationObserverActive s \<Longrightarrow>
   observerConsistent s' = observerConsistent s"
  by (simp add: observerConsistent_def mutationObserverAttached_def)

lemma observerConsistent_onRouteChange:
  assumes "observerConsistent s"
  shows "observerConsistent (onRouteChange s)"
proof (cases "checkIsEditPage s")
  case True
  show ?thesis
    using assms
    by (simp add: onRouteChange_edit[OF True] observerConsistent_def mutationObserverAttached_def
        alternating_append)
next
  case False
  show ?thesis
    using assms
    by (simp add: onRouteChange_other[OF False] Let_def observerConsistent_def
        mutationObserverAttached_def alternating_append)
qed

lemma observerConsistent_navigate:
  "observerConsistent s \<Longrightarrow> observerConsistent (onRouteChange (s\<lparr>href := u\<rparr>))"
  by (rule observerConsistent_onRouteChange) (simp add: observerConsistent_def mutationObserverAttached_def)

lemma observerConsistent_react:
  "observerConsistent s \<Longrightarrow> e \<noteq> DOMContentLoaded \<Longrightarrow> observerConsistent (react e s)"
  by (cases e)
     (simp_all add: pushState_def popstate_def observerConsistent_navigate
        observerConsistent_cong[of "resizeObserverCallback _ s" s]
        observerConsistent_cong[of "mutationObserverCallback _ s" s]
        observerConsistent_cong[of "click _ s" s]
        observerConsistent_cong[of "runAnimationFrame s" s]
        observerConsistent_cong[of "relayout _ _ s" s])

lemma observerConsistent_run:
  "observerConsistent s \<Longrightarrow> DOMContentLoaded \<notin> set es \<Longrightarrow> observerConsistent (fold react es s)"
  by (induction es arbitrary: s) (auto simp: observerConsistent_react)

lemma observerConsistent_init:
  "mutationObserverCalls s = [] \<Longrightarrow> \<not> mutationObserverActive s \<Longrightarrow> observerConsistent (init s)"
  by (simp add: init_def Let_def observerConsistent_def mutationObserverAttached_def)

section \<open>What a reaction leaves of a root it does not collapse\<close>

lemma fold_invariant:
  assumes "\<And>x s. P s \<Longrightarrow> P (g x s)"
  shows "P s \<Longrightarrow> P (fold g xs s)"
  by (induction xs arbitrary: s) (simp_all add: assms)

lemma lookupNode_updatePage_Some:
  assumes m: "mutator f extra"
    and e: "\<forall>e\<in>set extra. childNodes e = [] \<and> freshId s \<le> nodeId e"
    and y: "lookupNode y s = Some n"
  shows "lookupNode y (updatePage x f s) = Some (updateNode x f n)"
proof -
  have "y < freshId s" using y by (rule lookupNode_fresh)
  then have "\<forall>e\<in>set extra. pathTo y e = []"
    using e by (auto simp: pathTo_unfold[of y])
  then show ?thesis using lookupNode_updatePage[OF m] y by simp
qed

lemma updateNode_other:
  assumes "nodeId n \<noteq> x"
  shows "idAttr (updateNode x f n) = idAttr n"
    and "styleHeight (updateNode x f n) = styleHeight n"
    and "scrollHeight (updateNode x f n) = scrollHeight n"
  using assms by (cases n; simp add: updateNode.simps)+

lemma updateNode_other_children:
  assumes "mutator f extra" "nodeId n \<noteq> x"
  shows "map nodeId (childNodes (updateNode x f n)) = map nodeId (childNodes n)"
  using assms by (simp add: updateNode_children updateNode_header comp_def)

lemma updateNode_other_classes:
  assumes "mutator f extra" "nodeId n \<noteq> x"
  shows "map classList (childNodes (updateNode x f n)) = map classList (childNodes n)"
  using assms by (simp add: updateNode_children updateNode_header comp_def)

lemma scrollHeight_updateNode:
  "(\<And>m. scrollHeight (f m) = scrollHeight m) \<Longrightarrow> scrollHeight (updateNode x f n) = scrollHeight n"
  by (cases n) (simp add: updateNode.simps)

lemma updateCodeBlock_cases:
  "updateCodeBlock x s = s \<or>
   (\<exists>n. lookupNode x s = Some n \<and> querySelector [''code-expand-btn''] n = None \<and>
        COLLAPSED_HEIGHT < scrollHeight n \<and>
        updateCodeBlock x s =
          appendChild x (createExpandBtn s)
            (setStyleHeight x (showNat COLLAPSED_HEIGHT @ ''px'') (setId x ''collapsed'' s)))"
proof (cases "lookupNode x s")
  case None
  then show ?thesis by (simp add: updateCodeBlock_def)
next
  case (Some n)
  have "createExpandBtn (setStyleHeight x v (setId x w s)) = createExpandBtn s" for v w
    by (simp add: createExpandBtn_def setStyleHeight_def setId_def freshId_updatePage
        mutator_withId mutator_withStyleHeight)
  then have eq: "updateCodeBlock x s =
      (if querySelector [''code-expand-btn''] n \<noteq> None then s
       else if COLLAPSED_HEIGHT < scrollHeight n then
         appendChild x (createExpandBtn s)
            (setStyleHeight x (showNat COLLAPSED_HEIGHT @ ''px'') (setId x ''collapsed'' s))
       else s)"
    using Some by (simp add: updateCodeBlock_def Let_def)
  show ?thesis
  proof (cases "querySelector [''code-expand-btn''] n = None \<and> COLLAPSED_HEIGHT < scrollHeight n")
    case True
    then have "updateCodeBlock x s = appendChild x (createExpandBtn s)
            (setStyleHeight x (showNat COLLAPSED_HEIGHT @ ''px'') (setId x ''collapsed'' s))"
      by (simp only: eq) simp
    then show ?thesis using True Some by blast
  next
    case False
    then have "updateCodeBlock x s = s" by (simp only: eq) auto
    then show ?thesis by blast
  qed
qed

lemma freshId_sets [simp]:
  "freshId (setId x v s) = freshId s"
  "freshId (setStyleHeight x v s) = freshId s"
  by (simp_all add: setId_def setStyleHeight_def freshId_updatePage mutator_withId mutator_withStyleHeight)

lemma lookupNode_collapse:
  assumes "lookupNode y s = Some n"
  shows "lookupNode y (appendChild x (createExpandBtn s)
            (setStyleHeight x v (setId x w s)))
         = Some (updateNode x (withChild (createExpandBtn s))
                  (updateNode x (withStyleHeight v) (updateNode x (withId w) n)))"
proof -
  have 1: "lookupNode y (setId x w s) = Some (updateNode x (withId w) n)"
    unfolding setId_def by (rule lookupNode_updatePage_Some[OF mutator_withId _ assms]) simp
  have 2: "lookupNode y (setStyleHeight x v (setId x w s))
             = Some (updateNode x (withStyleHeight v) (updateNode x (withId w) n))"
    unfolding setStyleHeight_def by (rule lookupNode_updatePage_Some[OF mutator_withStyleHeight _ 1]) simp
  show ?thesis
    unfolding appendChild_def
    by (rule lookupNode_updatePage_Some[OF mutator_withChild _ 2]) (simp add: createExpandBtn_def)
qed

lemma shallowInvariant_updateCodeBlock_other:
  assumes "shallowInvariant r root s" "x \<noteq> r"
  shows "shallowInvariant r root (updateCodeBlock x s)"
proof -
  from assms(1) obtain n where n: "lookupNode r s = Some n" "idAttr n = idAttr root"
    "styleHeight n = styleHeight root" "scrollHeight n = scrollHeight root"
    "map nodeId (childNodes n) = map nodeId (childNodes root)"
    "map classList (childNodes n) = map classList (childNodes root)"
    unfolding shallowInvariant_def by blast
  have id: "nodeId n = r" using n(1) lookupNode_SomeD by blast
  let ?n1 = "updateNode x (withId ''collapsed'') n"
  let ?n2 = "updateNode x (withStyleHeight (showNat COLLAPSED_HEIGHT @ ''px'')) ?n1"
  let ?n3 = "updateNode x (withChild (createExpandBtn s)) ?n2"
  have i1: "nodeId ?n1 \<noteq> x" using id assms(2) by (simp add: updateNode_header[OF mutator_withId])
  have i2: "nodeId ?n2 \<noteq> x" using i1 by (simp add: updateNode_header[OF mutator_withStyleHeight])
  have "idAttr ?n3 = idAttr root" "styleHeight ?n3 = styleHeight root"
    "scrollHeight ?n3 = scrollHeight root"
    "map nodeId (childNodes ?n3) = map nodeId (childNodes root)"
    "map classList (childNodes ?n3) = map classList (childNodes root)"
    using n id assms(2) i1 i2
    by (simp_all add: updateNode_other updateNode_other_children[OF mutator_withId]
        updateNode_other_children[OF mutator_withStyleHeight]
        updateNode_other_children[OF mutator_withChild]
        updateNode_other_classes[OF mutator_withId]
        updateNode_other_classes[OF mutator_withStyleHeight]
        updateNode_other_classes[OF mutator_withChild])
  then have "shallowInvariant r root (appendChild x (createExpandBtn s)
            (setStyleHeight x (showNat COLLAPSED_HEIGHT @ ''px'') (setId x ''collapsed'' s)))"
    unfolding shallowInvariant_def using lookupNode_collapse[OF n(1)] by simp
  then show ?thesis using updateCodeBlock_cases[of x s] assms(1)
    by (elim disjE exE conjE) simp_all
qed

lemma updateCodeBlock_short:
  "lookupNode r s = Some n \<Longrightarrow> scrollHeight n \<le> COLLAPSED_HEIGHT \<Longrightarrow> updateCodeBlock r s = s"
  by (simp add: updateCodeBlock_def)

lemma shallowInvariant_fields:
  "document s' = document s \<Longrightarrow> detached s' = detached s \<Longrightarrow>
   shallowInvariant r root s' = shallowInvariant r root s"
  by (simp add: shallowInvariant_def lookupNode_def pathIn_def)

lemma shallowInvariant_initializeCodeBlock:
  assumes inv: "shallowInvariant r root s" and short: "scrollHeight root \<le> COLLAPSED_HEIGHT"
  shows "shallowInvariant r root (initializeCodeBlock x s)"
proof -
  let ?t = "s\<lparr>observedCodeBlocks := insert x (observedCodeBlocks s),
              resizeObserveCalls := resizeObserveCalls s @ [x]\<rparr>"
  have t: "shallowInvariant r root ?t" using inv shallowInvariant_fields[of ?t s] by simp
  have "shallowInvariant r root (updateCodeBlock x ?t)"
  proof (cases "x = r")
    case True
    from t obtain n where "lookupNode r ?t = Some n" "scrollHeight n = scrollHeight root"
      unfolding shallowInvariant_def by blast
    then have "updateCodeBlock r ?t = ?t" using short by (simp add: updateCodeBlock_short)
    then show ?thesis using t True by simp
  next
    case False
    then show ?thesis using t by (simp add: shallowInvariant_updateCodeBlock_other)
  qed
  then show ?thesis using inv
    by (cases "lookupNode x s") (simp_all add: initializeCodeBlock_def)
qed

lemma shallowInvariant_initializeAllCodeBlocks:
  assumes inv: "shallowInvariant r root s" and short: "scrollHeight root \<le> COLLAPSED_HEIGHT"
  shows "shallowInvariant r root (initializeAllCodeBlocks s)"
proof -
  have "shallowInvariant r root (fold initializeCodeBlock xs s)" for xs
    using inv by (rule fold_invariant[rotated]) (simp add: shallowInvariant_initializeCodeBlock short)
  then show ?thesis using inv by (simp add: initializeAllCodeBlocks_def)
qed

lemma shallowInvariant_init:
  assumes inv: "shallowInvariant r root s" and short: "scrollHeight root \<le> COLLAPSED_HEIGHT"
  shows "shallowInvariant r root (init s)"
proof -
  have a: "shallowInvariant r root (s\<lparr>isCurrentlyEditPage := e\<rparr>)" for e
    using inv shallowInvariant_fields[of "s\<lparr>isCurrentlyEditPage := e\<rparr>" s] by simp
  then have "shallowInvariant r root (initializeAllCodeBlocks (s\<lparr>isCurrentlyEditPage := e\<rparr>))" for e
    using short by (rule shallowInvariant_initializeAllCodeBlocks)
  then have "shallowInvariant r root
     ((initializeAllCodeBlocks (s\<lparr>isCurrentlyEditPage := e\<rparr>))
        \<lparr>mutationObserverCalls := c, mutationObserverActive := True\<rparr>)" for e c
    using shallowInvariant_fields[of "(initializeAllCodeBlocks (s\<lparr>isCurrentlyEditPage := e\<rparr>))
        \<lparr>mutationObserverCalls := c, mutationObserverActive := True\<rparr>"
        "initializeAllCodeBlocks (s\<lparr>isCurrentlyEditPage := e\<rparr>)"]
    by simp
  then show ?thesis using a by (simp add: init_def Let_def)
qed

lemma initializeCodeBlock_short_page:
  assumes "lookupNode r s = Some n" "scrollHeight n \<le> COLLAPSED_HEIGHT"
  shows "document (initializeCodeBlock r s) = document s"
    and "detached (initializeCodeBlock r s) = detached s"
proof -
  let ?t = "s\<lparr>observedCodeBlocks := insert r (observedCodeBlocks s),
              resizeObserveCalls := resizeObserveCalls s @ [r]\<rparr>"
  have "lookupNode r ?t = Some n" using assms(1) by (simp add: lookupNode_def pathIn_def)
  then have "updateCodeBlock r ?t = ?t" using assms(2) by (rule updateCodeBlock_short)
  then show "document (initializeCodeBlock r s) = document s"
    "detached (initializeCodeBlock r s) = detached s"
    using assms(1) by (simp_all add: initializeCodeBlock_def)
qed

section \<open>The structural-change reaction finds and initializes a new root\<close>

lemma eligible_extends: "eligible r s \<Longrightarrow> extends s s' \<Longrightarrow> eligible r s'"
proof -
  assume a: "eligible r s" and e: "extends s s'"
  from a obtain n where n: "lookupNode r s = Some n" "classContains n ''cm-editor''"
    unfolding eligible_def by blast
  from e n(1) obtain n' where "lookupNode r s' = Some n'" "nodeType n' = nodeType n"
    "classList n' = classList n"
    unfolding extends_def by blast
  then show ?thesis using n(2) by (auto simp: eligible_def classContains_def)
qed

lemma reaches_extends: "reaches node r s \<Longrightarrow> extends s s' \<Longrightarrow> reaches node r s'"
proof -
  assume a: "reaches node r s" and e: "extends s s'"
  from a obtain added where n: "lookupNode node s = Some added" "nodeType added = 1"
    "node = r \<or> \<not> classContains added ''cm-editor'' \<and>
       r \<in> set (map nodeId (querySelectorAll [''cm-editor''] added))"
    unfolding reaches_def by blast
  from e n(1) obtain n' where n': "lookupNode node s' = Some n'" "nodeType n' = nodeType added"
    "classList n' = classList added"
    "map nodeId (querySelectorAll [''cm-editor''] n') = map nodeId (querySelectorAll [''cm-editor''] added)"
    unfolding extends_def by blast
  have c: "classContains n' ''cm-editor'' = classContains added ''cm-editor''"
    using n' by (simp add: classContains_def)
  have "node = r \<or> \<not> classContains n' ''cm-editor'' \<and>
       r \<in> set (map nodeId (querySelectorAll [''cm-editor''] n'))"
    using n(3) by (simp only: c n'(4))
  then show ?thesis using n(2) n'(1,2) unfolding reaches_def by simp
qed

lemma observed_extends: "r \<in> observedCodeBlocks s \<Longrightarrow> extends s s' \<Longrightarrow> r \<in> observedCodeBlocks s'"
  unfolding extends_def by blast

lemma initializeCodeBlock_tracks: "eligible r s \<Longrightarrow> r \<in> observedCodeBlocks (initializeCodeBlock r s)"
  by (auto simp: eligible_def initializeCodeBlock_def)

lemma fold_initializeCodeBlock_tracks:
  "r \<in> set xs \<Longrightarrow> eligible r s \<Longrightarrow> r \<in> observedCodeBlocks (fold initializeCodeBlock xs s)"
proof (induction xs arbitrary: s)
  case (Cons a as)
  let ?s1 = "initializeCodeBlock a s"
  have e1: "extends s ?s1" by (rule extends_initializeCodeBlock)
  have e2: "extends ?s1 (fold initializeCodeBlock as ?s1)"
    by (rule extends_fold) (rule extends_initializeCodeBlock)
  show ?case
  proof (cases "a = r")
    case True
    then have "r \<in> observedCodeBlocks ?s1" using Cons.prems(2) by (simp add: initializeCodeBlock_tracks)
    then show ?thesis using e2 by (simp add: observed_extends)
  next
    case False
    then have "r \<in> set as" using Cons.prems(1) by simp
    moreover have "eligible r ?s1" using Cons.prems(2) e1 by (rule eligible_extends)
    ultimately show ?thesis using Cons.IH by simp
  qed
qed simp

lemma processAddedNode_tracks:
  assumes "reaches node r s" "eligible r s"
  shows "r \<in> observedCodeBlocks (processAddedNode node s)"
proof -
  from assms(1) obtain added where n: "lookupNode node s = Some added" "nodeType added = 1"
    "node = r \<or> \<not> classContains added ''cm-editor'' \<and>
       r \<in> set (map nodeId (querySelectorAll [''cm-editor''] added))"
    unfolding reaches_def by blast
  show ?thesis
  proof (cases "classContains added ''cm-editor''")
    case True
    then have "node = r" using n(3) by blast
    then show ?thesis using n True assms(2) by (simp add: processAddedNode_def initializeCodeBlock_tracks)
  next
    case False
    have "node \<noteq> r" using False n(1) assms(2) by (auto simp: eligible_def)
    then have "r \<in> set (map nodeId (querySelectorAll [''cm-editor''] added))" using n(3) by blast
    then show ?thesis using n False assms(2)
      by (simp add: processAddedNode_def fold_initializeCodeBlock_tracks)
  qed
qed

lemma fold_processAddedNode_tracks:
  "node \<in> set nodes \<Longrightarrow> reaches node r s \<Longrightarrow> eligible r s \<Longrightarrow>
   r \<in> observedCodeBlocks (fold processAddedNode nodes s)"
proof (induction nodes arbitrary: s)
  case (Cons a as)
  let ?s1 = "processAddedNode a s"
  have e1: "extends s ?s1" by (rule extends_processAddedNode)
  have e2: "extends ?s1 (fold processAddedNode as ?s1)"
    by (rule extends_fold) (rule extends_processAddedNode)
  show ?case
  proof (cases "a = node")
    case True
    then have "r \<in> observedCodeBlocks ?s1" using Cons.prems by (simp add: processAddedNode_tracks)
    then show ?thesis using e2 by (simp add: observed_extends)
  next
    case False
    then have "node \<in> set as" using Cons.prems(1) by simp
    moreover have "reaches node r ?s1" using Cons.prems(2) e1 by (rule reaches_extends)
    moreover have "eligible r ?s1" using Cons.prems(3) e1 by (rule eligible_extends)
    ultimately show ?thesis using Cons.IH by simp
  qed
qed simp

lemma fold_mutations_tracks:
  "mutation \<in> set mutations \<Longrightarrow> node \<in> set (addedNodes mutation) \<Longrightarrow> reaches node r s \<Longrightarrow>
   eligible r s \<Longrightarrow>
   r \<in> observedCodeBlocks (fold (\<lambda>mutation. fold processAddedNode (addedNodes mutation)) mutations s)"
proof (induction mutations arbitrary: s)
  case (Cons a as)
  let ?g = "\<lambda>mutation. fold processAddedNode (addedNodes mutation)"
  let ?s1 = "?g a s"
  have step: "extends t (?g m t)" for m t
    by (rule extends_fold) (rule extends_processAddedNode)
  have e2: "extends ?s1 (fold ?g as ?s1)"
    by (rule extends_fold) (rule step)
  show ?case
  proof (cases "a = mutation")
    case True
    then have "r \<in> observedCodeBlocks ?s1" using Cons.prems by (simp add: fold_processAddedNode_tracks)
    then show ?thesis using e2 by (simp add: observed_extends)
  next
    case False
    then have "mutation \<in> set as" using Cons.prems(1) by simp
    moreover have "reaches node r ?s1" using Cons.prems(3) step by (rule reaches_extends)
    moreover have "eligible r ?s1" using Cons.prems(4) step by (rule eligible_extends)
    ultimately show ?thesis using Cons.IH Cons.prems(2) by simp
  qed
qed simp

lemma onceInvariant_initializeCodeBlock:
  assumes "onceInvariant r c s"
  shows "onceInvariant r c (initializeCodeBlock x s)"
proof (cases "lookupNode x s")
  case None
  then show ?thesis using assms by (simp add: initializeCodeBlock_def)
next
  case (Some n)
  show ?thesis
  proof (cases "x \<in> observedCodeBlocks s \<or> \<not> classContains n ''cm-editor''")
    case True
    then show ?thesis using assms Some by (auto simp: initializeCodeBlock_def)
  next
    case False
    then have "initializeCodeBlock x s = updateCodeBlock x
        (s\<lparr>observedCodeBlocks := insert x (observedCodeBlocks s),
           resizeObserveCalls := resizeObserveCalls s @ [x]\<rparr>)"
      using Some by (simp add: initializeCodeBlock_def)
    then show ?thesis using assms False by (auto simp: onceInvariant_def)
  qed
qed

lemma onceInvariant_mutationObserverCallback:
  assumes "onceInvariant r c s"
  shows "onceInvariant r c (mutationObserverCallback mutations s)"
proof -
  have 1: "onceInvariant r c (fold initializeCodeBlock xs t)" if "onceInvariant r c t" for xs t
    using that by (rule fold_invariant[rotated]) (rule onceInvariant_initializeCodeBlock)
  have 2: "onceInvariant r c (processAddedNode x t)" if "onceInvariant r c t" for x t
    using that by (cases "lookupNode x t") (simp_all add: processAddedNode_def 1 onceInvariant_initializeCodeBlock)
  have 3: "onceInvariant r c (fold processAddedNode xs t)" if "onceInvariant r c t" for xs t
    using that by (rule fold_invariant[rotated]) (rule 2)
  have "onceInvariant r c (fold (\<lambda>mutation. fold processAddedNode (addedNodes mutation)) mutations s)"
    using assms by (rule fold_invariant[rotated]) (rule 3)
  then show ?thesis using assms by (simp add: mutationObserverCallback_def)
qed

lemma hasToggleButton_collapse:
  assumes "lookupNode r s = Some n"
  shows "hasToggleButton r (appendChild r (createExpandBtn s) (setStyleHeight r v (setId r w s)))"
proof -
  let ?n2 = "updateNode r (withStyleHeight v) (updateNode r (withId w) n)"
  let ?n3 = "updateNode r (withChild (createExpandBtn s)) ?n2"
  have "nodeId n = r" using assms lookupNode_SomeD by blast
  then have "nodeId ?n2 = r"
    by (simp add: updateNode_header[OF mutator_withId] updateNode_header[OF mutator_withStyleHeight])
  then have "createExpandBtn s \<in> set (childNodes ?n3)"
    by (simp add: updateNode_children[OF mutator_withChild])
  moreover have "createExpandBtn s \<in> set (subtree (createExpandBtn s))"
    by (simp add: subtree_unfold[of "createExpandBtn s"])
  ultimately have "createExpandBtn s \<in> set (descendants ?n3)"
    unfolding descendants_def by auto
  moreover have "matches [''code-expand-btn''] (createExpandBtn s)"
    by (simp add: matches_def createExpandBtn_def)
  ultimately have "querySelector [''code-expand-btn''] ?n3 \<noteq> None"
    unfolding querySelector_None_iff by blast
  then show ?thesis
    by (simp add: hasToggleButton_def lookupNode_collapse[OF assms])
qed

lemma tall_collapse:
  assumes "lookupNode y s = Some n"
  shows "\<exists>n'. lookupNode y (appendChild x (createExpandBtn s) (setStyleHeight x v (setId x w s))) = Some n' \<and>
              scrollHeight n' = scrollHeight n"
  by (simp add: lookupNode_collapse[OF assms] scrollHeight_updateNode withId_def withStyleHeight_def
      withChild_def)

lemma tall_updateCodeBlock:
  assumes "lookupNode y s = Some n"
  shows "\<exists>n'. lookupNode y (updateCodeBlock x s) = Some n' \<and> scrollHeight n' = scrollHeight n"
  using updateCodeBlock_cases[of x s] tall_collapse[OF assms, of x] assms
  by (elim disjE exE conjE) simp_all

lemma hasToggleButton_updateCodeBlock:
  assumes "lookupNode r s = Some n" "COLLAPSED_HEIGHT < scrollHeight n"
  shows "hasToggleButton r (updateCodeBlock r s)"
proof (cases "querySelector [''code-expand-btn''] n = None")
  case True
  have "createExpandBtn (setStyleHeight r v (setId r w s)) = createExpandBtn s" for v w
    by (simp add: createExpandBtn_def)
  then have "updateCodeBlock r s = appendChild r (createExpandBtn s)
            (setStyleHeight r (showNat COLLAPSED_HEIGHT @ ''px'') (setId r ''collapsed'' s))"
    using True assms by (simp add: updateCodeBlock_def Let_def)
  then show ?thesis using hasToggleButton_collapse[OF assms(1)] by simp
next
  case False
  then show ?thesis using assms(1) by (simp add: updateCodeBlock_def hasToggleButton_def)
qed

lemma hasToggleButton_fields:
  "document s' = document s \<Longrightarrow> detached s' = detached s \<Longrightarrow>
   hasToggleButton r s' = hasToggleButton r s"
  by (simp add: hasToggleButton_def lookupNode_def pathIn_def)

lemma tallInvariant_initializeCodeBlock:
  assumes "tallInvariant r s"
  shows "tallInvariant r (initializeCodeBlock x s)"
proof -
  from assms obtain n where n: "lookupNode r s = Some n" "COLLAPSED_HEIGHT < scrollHeight n"
    and b: "r \<in> observedCodeBlocks s \<longrightarrow> hasToggleButton r s"
    unfolding tallInvariant_def by blast
  let ?t = "s\<lparr>observedCodeBlocks := insert x (observedCodeBlocks s),
              resizeObserveCalls := resizeObserveCalls s @ [x]\<rparr>"
  have nt: "lookupNode r ?t = Some n" using n(1) by (simp add: lookupNode_def pathIn_def)
  have bt: "hasToggleButton r ?t = hasToggleButton r s"
    by (rule hasToggleButton_fields) simp_all
  have "tallInvariant r (updateCodeBlock x ?t)" if new: "x \<notin> observedCodeBlocks s"
  proof -
    obtain n' where n': "lookupNode r (updateCodeBlock x ?t) = Some n'" "scrollHeight n' = scrollHeight n"
      using tall_updateCodeBlock[OF nt] by blast
    have "hasToggleButton r (updateCodeBlock x ?t)" if "r \<in> observedCodeBlocks (updateCodeBlock x ?t)"
    proof (cases "x = r")
      case True
      then show ?thesis using hasToggleButton_updateCodeBlock[OF nt n(2)] by simp
    next
      case False
      then have "r \<in> observedCodeBlocks s" using that by simp
      then have "hasToggleButton r ?t" using b bt by simp
      then show ?thesis using extends_updateCodeBlock by (rule hasToggleButton_extends)
    qed
    then show ?thesis unfolding tallInvariant_def using n' n(2) by auto
  qed
  then show ?thesis using assms
    by (cases "lookupNode x s") (auto simp: initializeCodeBlock_def)
qed

lemma tallInvariant_mutationObserverCallback:
  assumes "tallInvariant r s"
  shows "tallInvariant r (mutationObserverCallback mutations s)"
proof -
  have 1: "tallInvariant r (fold initializeCodeBlock xs t)" if "tallInvariant r t" for xs t
    using that by (rule fold_invariant[rotated]) (rule tallInvariant_initializeCodeBlock)
  have 2: "tallInvariant r (processAddedNode x t)" if "tallInvariant r t" for x t
    using that by (cases "lookupNode x t") (simp_all add: processAddedNode_def 1 tallInvariant_initializeCodeBlock)
  have 3: "tallInvariant r (fold processAddedNode xs t)" if "tallInvariant r t" for xs t
    using that by (rule fold_invariant[rotated]) (rule 2)
  have "tallInvariant r (fold (\<lambda>mutation. fold processAddedNode (addedNodes mutation)) mutations s)"
    using assms by (rule fold_invariant[rotated]) (rule 3)
  then show ?thesis using assms by (simp add: mutationObserverCallback_def)
qed

section \<open>The node of a root after it is collapsed\<close>






lemma wfPage_lookupNode:
  assumes "wfPage s" "n \<in> set (allNodes s)"
  shows "lookupNode (nodeId n) s = Some n"
proof -
  obtain m where m: "lookupNode (nodeId n) s = Some m"
    using lookupNode_present[OF assms(2)] by blast
  then have "nodeId m = nodeId n" "m \<in> set (allNodes s)" using lookupNode_SomeD by blast+
  moreover have "inj_on nodeId (set (allNodes s))"
    using assms(1) unfolding wfPage_def by (simp add: distinct_map)
  ultimately have "m = n" using assms(2) by (simp add: inj_on_eq_iff)
  then show ?thesis using m by simp
qed




section \<open>What a toggle leaves to read\<close>

lemma updateNode_withId_attrs:
  "idAttr (updateNode x (withId v) n) = (if nodeId n = x then v else idAttr n)"
  "styleHeight (updateNode x (withId v) n) = styleHeight n"
  by (cases n; simp add: updateNode.simps withId_def)+

lemma updateNode_withStyleHeight_attrs:
  "idAttr (updateNode x (withStyleHeight v) n) = idAttr n"
  "styleHeight (updateNode x (withStyleHeight v) n) = (if nodeId n = x then v else styleHeight n)"
  by (cases n; simp add: updateNode.simps withStyleHeight_def)+

lemma lookupNode_setId:
  "lookupNode y (setId x v s) = map_option (updateNode x (withId v)) (lookupNode y s)"
  unfolding setId_def by (rule lookupNode_updatePage[OF mutator_withId]) simp

lemma lookupNode_setStyleHeight:
  "lookupNode y (setStyleHeight x v s) = map_option (updateNode x (withStyleHeight v)) (lookupNode y s)"
  unfolding setStyleHeight_def by (rule lookupNode_updatePage[OF mutator_withStyleHeight]) simp

lemma closest_setId:
  "closest sel y (setId x v s) = map_option (updateNode x (withId v)) (closest sel y s)"
  unfolding setId_def by (rule closest_updatePage[OF mutator_withId]) simp

lemma closest_setStyleHeight:
  "closest sel y (setStyleHeight x v s) = map_option (updateNode x (withStyleHeight v)) (closest sel y s)"
  unfolding setStyleHeight_def by (rule closest_updatePage[OF mutator_withStyleHeight]) simp

lemma idOf_setId:
  "idOf y (setId x v s) = (if x = y \<and> lookupNode y s \<noteq> None then Some v else idOf y s)"
proof (cases "lookupNode y s")
  case None
  then show ?thesis by (simp add: idOf_def lookupNode_setId)
next
  case (Some n)
  then have "nodeId n = y" using lookupNode_SomeD by blast
  then show ?thesis using Some by (auto simp: idOf_def lookupNode_setId updateNode_withId_attrs)
qed

lemma idOf_setStyleHeight: "idOf y (setStyleHeight x v s) = idOf y s"
  by (cases "lookupNode y s")
     (simp_all add: idOf_def lookupNode_setStyleHeight updateNode_withStyleHeight_attrs)

lemma styleHeightOf_setId: "styleHeightOf y (setId x v s) = styleHeightOf y s"
  by (cases "lookupNode y s") (simp_all add: styleHeightOf_def lookupNode_setId updateNode_withId_attrs)

lemma styleHeightOf_setStyleHeight:
  "styleHeightOf y (setStyleHeight x v s)
     = (if x = y \<and> lookupNode y s \<noteq> None then Some v else styleHeightOf y s)"
proof (cases "lookupNode y s")
  case None
  then show ?thesis by (simp add: styleHeightOf_def lookupNode_setStyleHeight)
next
  case (Some n)
  then have "nodeId n = y" using lookupNode_SomeD by blast
  then show ?thesis using Some
    by (auto simp: styleHeightOf_def lookupNode_setStyleHeight updateNode_withStyleHeight_attrs)
qed

lemma lookupNode_None_sets [simp]:
  "(lookupNode y (setId x v s) = None) = (lookupNode y s = None)"
  "(lookupNode y (setStyleHeight x v s) = None) = (lookupNode y s = None)"
  by (simp_all add: lookupNode_setId lookupNode_setStyleHeight)

lemma toggleFrame_expand:
  "toggleFrame (r, b, True) s
     = setId b ''expanded'' (setId r ''expanded'' (setStyleHeight r (expandedHeight r s) s))"
  by (cases "lookupNode r s"; cases "querySelector [''cm-scroller''] (the (lookupNode r s))")
     (simp_all add: toggleFrame_def expandedHeight_def)

lemma toggleFrame_collapse_cases:
  "toggleFrame (r, b, False) s = collapsedPage r b s \<or>
   (\<exists>c t. closest [''relative'', ''my-2''] r (collapsedPage r b s) = Some c \<and>
          parentElement (nodeId c) (collapsedPage r b s) = Some t \<and>
          toggleFrame (r, b, False) s
            = (collapsedPage r b s)\<lparr>scrollIntoViewCalls :=
                 scrollIntoViewCalls (collapsedPage r b s) @ [nodeId t]\<rparr>)"
proof (cases "closest [''relative'', ''my-2''] r (collapsedPage r b s)")
  case None
  then show ?thesis by (simp add: toggleFrame_def collapsedPage_def)
next
  case (Some c)
  show ?thesis
  proof (cases "parentElement (nodeId c) (collapsedPage r b s)")
    case None
    then show ?thesis using Some by (simp add: toggleFrame_def collapsedPage_def)
  next
    case (Some t)
    then have "toggleFrame (r, b, False) s
            = (collapsedPage r b s)\<lparr>scrollIntoViewCalls :=
                 scrollIntoViewCalls (collapsedPage r b s) @ [nodeId t]\<rparr>"
      using \<open>closest [''relative'', ''my-2''] r (collapsedPage r b s) = Some c\<close>
      by (simp add: toggleFrame_def collapsedPage_def)
    then show ?thesis using Some \<open>closest [''relative'', ''my-2''] r (collapsedPage r b s) = Some c\<close>
      by blast
  qed
qed

lemma toggleFrame_collapse_page:
  "document (toggleFrame (r, b, False) s) = document (collapsedPage r b s)"
  "detached (toggleFrame (r, b, False) s) = detached (collapsedPage r b s)"
  "frameCallbacks (toggleFrame (r, b, False) s) = frameCallbacks s"
  "consoleErrors (toggleFrame (r, b, False) s) = consoleErrors s"
  using toggleFrame_collapse_cases[of r b s]
  by (auto simp: collapsedPage_def)

lemma reads_cong:
  assumes "document s' = document s" "detached s' = detached s"
  shows "lookupNode y s' = lookupNode y s" "idOf y s' = idOf y s"
    "styleHeightOf y s' = styleHeightOf y s" "closest sel y s' = closest sel y s"
  using assms by (simp_all add: lookupNode_def pathIn_def idOf_def styleHeightOf_def closest_def)

lemma collapsedPage_reads:
  assumes "lookupNode r s \<noteq> None" "lookupNode b s \<noteq> None"
  shows "idOf r (collapsedPage r b s) = Some ''collapsed''"
    and "idOf b (collapsedPage r b s) = Some ''collapsed''"
    and "styleHeightOf r (collapsedPage r b s) = Some ''400px''"
  using assms
  by (simp_all add: collapsedPage_def idOf_setId idOf_setStyleHeight styleHeightOf_setId
      styleHeightOf_setStyleHeight showNat_COLLAPSED_HEIGHT)

lemma toggleFrame_collapse_reads:
  assumes "lookupNode r s \<noteq> None" "lookupNode b s \<noteq> None"
  shows "idOf r (toggleFrame (r, b, False) s) = Some ''collapsed''"
    and "idOf b (toggleFrame (r, b, False) s) = Some ''collapsed''"
    and "styleHeightOf r (toggleFrame (r, b, False) s) = Some ''400px''"
  using collapsedPage_reads[OF assms]
    reads_cong(2,3)[OF toggleFrame_collapse_page(1,2), of _ r b s]
  by simp_all

lemma toggleFrame_expand_reads:
  assumes "lookupNode r s \<noteq> None" "lookupNode b s \<noteq> None"
  shows "idOf r (toggleFrame (r, b, True) s) = Some ''expanded''"
    and "idOf b (toggleFrame (r, b, True) s) = Some ''expanded''"
    and "styleHeightOf r (toggleFrame (r, b, True) s) = Some (expandedHeight r s)"
    and "frameCallbacks (toggleFrame (r, b, True) s) = frameCallbacks s"
    and "consoleErrors (toggleFrame (r, b, True) s) = consoleErrors s"
    and "scrollIntoViewCalls (toggleFrame (r, b, True) s) = scrollIntoViewCalls s"
  using assms
  by (simp_all add: toggleFrame_expand idOf_setId idOf_setStyleHeight styleHeightOf_setId
      styleHeightOf_setStyleHeight)

lemma click_button:
  assumes "lookupNode b s = Some btn" "classContains btn ''code-expand-btn''"
    and "closest [''cm-editor''] b s = Some root"
  shows "click b s = s\<lparr>frameCallbacks := frameCallbacks s @ [(nodeId root, b, idAttr root = ''collapsed'')]\<rparr>"
  using assms by (simp add: click_def clickListener_def classContains_def)

lemma frame_update_same: "frameCallbacks s = [] \<Longrightarrow> s\<lparr>frameCallbacks := []\<rparr> = s"
  by (cases s) simp

lemma toggle_once:
  assumes "frameCallbacks s = []"
    and "lookupNode b s = Some btn" "classContains btn ''code-expand-btn''"
    and "closest [''cm-editor''] b s = Some root"
  shows "runAnimationFrame (click b s) = toggleFrame (nodeId root, b, idAttr root = ''collapsed'') s"
  by (simp add: click_button[OF assms(2,3,4)] runAnimationFrame_def assms(1)
      frame_update_same[OF assms(1)])

lemma closest_in_page: "closest sel y s = Some n \<Longrightarrow> n \<in> set (allNodes s)"
  using pathIn_subset[of y s] by (auto simp: closest_def find_Some_iff)

section \<open>Object identities stay unique\<close>

lemma idsOf_unfold: "idsOf n = nodeId n # concat (map idsOf (childNodes n))"
proof -
  have "(\<lambda>x. map nodeId (subtree x)) = idsOf" by (simp add: idsOf_def fun_eq_iff)
  then have "map nodeId (concat (map subtree (childNodes n))) = concat (map idsOf (childNodes n))"
    by (simp add: map_concat comp_def)
  then show ?thesis unfolding idsOf_def by (subst subtree_unfold) simp
qed

lemma count_list_concat: "count_list (concat xss) a = sum_list (map (\<lambda>xs. count_list xs a) xss)"
  by (induction xss) simp_all

lemma distinct_count_list: "distinct xs \<longleftrightarrow> (\<forall>a. count_list xs a \<le> 1)"
proof (induction xs)
  case (Cons x xs)
  have "x \<notin> set xs \<longleftrightarrow> count_list xs x = 0" by (simp add: count_list_0_iff)
  then show ?case using Cons by (auto simp: le_Suc_eq)
qed simp

lemma count_ids_appendChild:
  assumes "childNodes k = []"
  shows "count_list (idsOf (updateNode x (withChild k) n)) a
           = count_list (idsOf n) a + (if a = nodeId k then count_list (idsOf n) x else 0)"
proof (induction n arbitrary: a)
  case (Node i t c d h sh ks)
  let ?n = "Node i t c d h sh ks"
  let ?u = "updateNode x (withChild k)"
  have k: "idsOf k = [nodeId k]" using assms by (simp add: idsOf_unfold[of k])
  have kids: "sum_list (map (\<lambda>j. count_list (idsOf (?u j)) b) ks)
           = sum_list (map (\<lambda>j. count_list (idsOf j) b) ks)
             + (if b = nodeId k then sum_list (map (\<lambda>j. count_list (idsOf j) x) ks) else 0)" for b
    using Node.IH by (induction ks) simp_all
  have L: "idsOf (?u ?n) = i # concat (map idsOf (map ?u ks)) @ (if i = x then [nodeId k] else [])"
    using idsOf_unfold[of "?u ?n"]
    by (simp add: updateNode_header[OF mutator_withChild] updateNode_children[OF mutator_withChild] k)
  have R: "idsOf ?n = i # concat (map idsOf ks)" using idsOf_unfold[of ?n] by simp
  have "count_list (i # concat (map idsOf (map ?u ks)) @ (if i = x then [nodeId k] else [])) a
          = count_list (i # concat (map idsOf ks)) a
            + (if a = nodeId k then count_list (i # concat (map idsOf ks)) x else 0)"
  proof -
    have c: "count_list (concat (map (idsOf \<circ> ?u) ks)) b
               = sum_list (map (\<lambda>j. count_list (idsOf (?u j)) b) ks)" for b
      by (simp add: count_list_concat comp_def)
    have d: "count_list (concat (map idsOf ks)) b
               = sum_list (map (\<lambda>j. count_list (idsOf j) b) ks)" for b
      by (simp add: count_list_concat comp_def)
    show ?thesis
      by (cases "a = nodeId k"; cases "i = x"; cases "i = a") (simp_all add: c d kids)
  qed
  then show ?case by (simp only: L R)
qed

lemma count_allNodes_appendChild:
  assumes "childNodes k = []"
  shows "count_list (map nodeId (allNodes (appendChild x k s))) a
           = count_list (map nodeId (allNodes s)) a
             + (if a = nodeId k then count_list (map nodeId (allNodes s)) x else 0)"
proof -
  let ?u = "updateNode x (withChild k)"
  have ids: "map nodeId (allNodes t) = concat (map idsOf (document t # detached t))" for t
    unfolding allNodes_def idsOf_def[abs_def] by (simp add: map_concat comp_def)
  have "sum_list (map (\<lambda>j. count_list (idsOf (?u j)) a) ts)
           = sum_list (map (\<lambda>j. count_list (idsOf j) a) ts)
             + (if a = nodeId k then sum_list (map (\<lambda>j. count_list (idsOf j) x) ts) else 0)" for ts
    by (induction ts) (simp_all add: count_ids_appendChild[OF assms])
  from this[of "document s # detached s"] show ?thesis
    unfolding ids by (simp add: appendChild_def count_list_concat comp_def)
qed

lemma wfPage_appendChild:
  assumes "wfPage s" "childNodes k = []" "freshId s \<le> nodeId k"
  shows "wfPage (appendChild x k s)"
proof -
  have old: "count_list (map nodeId (allNodes s)) a \<le> 1" for a
    using assms(1) by (simp add: wfPage_def distinct_count_list)
  have "nodeId k \<notin> set (map nodeId (allNodes s))"
    using assms(3) by (fastforce dest: allNodes_fresh)
  then have new: "count_list (map nodeId (allNodes s)) (nodeId k) = 0"
    by (simp add: count_list_0_iff)
  have "count_list (map nodeId (allNodes (appendChild x k s))) a \<le> 1" for a
    unfolding count_allNodes_appendChild[OF assms(2)] using old[of a] old[of x] new by auto
  then show ?thesis by (simp add: wfPage_def distinct_count_list)
qed

lemma wfPage_plain:
  "mutator f [] \<Longrightarrow> wfPage (updatePage x f s) = wfPage s"
  by (simp add: wfPage_def allNodes_ids_updatePage)

lemma wfPage_fields:
  "document s' = document s \<Longrightarrow> detached s' = detached s \<Longrightarrow> wfPage s' = wfPage s"
  by (simp add: wfPage_def allNodes_def)

lemma wfPage_updateCodeBlock: "wfPage s \<Longrightarrow> wfPage (updateCodeBlock x s)"
proof -
  assume wf: "wfPage s"
  let ?s2 = "setStyleHeight x (showNat COLLAPSED_HEIGHT @ ''px'') (setId x ''collapsed'' s)"
  have "wfPage ?s2"
    using wf by (simp add: setStyleHeight_def setId_def wfPage_plain mutator_withId mutator_withStyleHeight)
  then have "wfPage (appendChild x (createExpandBtn s) ?s2)"
    by (rule wfPage_appendChild) (simp_all add: createExpandBtn_def)
  then show ?thesis using updateCodeBlock_cases[of x s] wf by (elim disjE exE conjE) simp_all
qed

lemma wfPage_initializeCodeBlock: "wfPage s \<Longrightarrow> wfPage (initializeCodeBlock x s)"
proof -
  assume wf: "wfPage s"
  let ?t = "s\<lparr>observedCodeBlocks := insert x (observedCodeBlocks s),
              resizeObserveCalls := resizeObserveCalls s @ [x]\<rparr>"
  have "wfPage ?t" using wf wfPage_fields[of ?t s] by simp
  then have "wfPage (updateCodeBlock x ?t)" by (rule wfPage_updateCodeBlock)
  then show ?thesis using wf by (cases "lookupNode x s") (simp_all add: initializeCodeBlock_def)
qed

lemma wfPage_initializeAllCodeBlocks: "wfPage s \<Longrightarrow> wfPage (initializeAllCodeBlocks s)"
proof -
  assume wf: "wfPage s"
  have "wfPage (fold initializeCodeBlock xs s)" for xs
    using wf by (rule fold_invariant[rotated]) (rule wfPage_initializeCodeBlock)
  then show ?thesis using wf by (simp add: initializeAllCodeBlocks_def)
qed

lemma wfPage_resizeObserverCallback: "wfPage s \<Longrightarrow> wfPage (resizeObserverCallback entries s)"
proof -
  assume wf: "wfPage s"
  have step: "wfPage (resizeEntry x t)" if "wfPage t" for x t
    using that by (cases "lookupNode x t") (simp_all add: resizeEntry_def wfPage_updateCodeBlock)
  have "wfPage (fold resizeEntry entries s)"
    using wf by (rule fold_invariant[rotated]) (rule step)
  then show ?thesis using wf by (simp add: resizeObserverCallback_def)
qed

lemma wfPage_mutationObserverCallback: "wfPage s \<Longrightarrow> wfPage (mutationObserverCallback mutations s)"
proof -
  assume wf: "wfPage s"
  have 1: "wfPage (fold initializeCodeBlock xs t)" if "wfPage t" for xs t
    using that by (rule fold_invariant[rotated]) (rule wfPage_initializeCodeBlock)
  have 2: "wfPage (processAddedNode x t)" if "wfPage t" for x t
    using that by (cases "lookupNode x t") (simp_all add: processAddedNode_def 1 wfPage_initializeCodeBlock)
  have 3: "wfPage (fold processAddedNode xs t)" if "wfPage t" for xs t
    using that by (rule fold_invariant[rotated]) (rule 2)
  have "wfPage (fold (\<lambda>mutation. fold processAddedNode (addedNodes mutation)) mutations s)"
    using wf by (rule fold_invariant[rotated]) (rule 3)
  then show ?thesis using wf by (simp add: mutationObserverCallback_def)
qed

lemma wfPage_sets:
  "wfPage (setId x v s) = wfPage s" "wfPage (setStyleHeight x v s) = wfPage s"
  by (simp_all add: setId_def setStyleHeight_def wfPage_plain mutator_withId mutator_withStyleHeight)

lemma wfPage_toggleFrame: "wfPage s \<Longrightarrow> wfPage (toggleFrame cb s)"
proof -
  assume wf: "wfPage s"
  obtain r b c where cb: "cb = (r, b, c)" by (cases cb)
  show ?thesis
  proof (cases c)
    case True
    then show ?thesis using wf by (simp add: cb toggleFrame_expand wfPage_sets)
  next
    case False
    have "wfPage (collapsedPage r b s)" using wf by (simp add: collapsedPage_def wfPage_sets)
    then have "wfPage (toggleFrame (r, b, False) s)"
      using wfPage_fields[OF toggleFrame_collapse_page(1,2), of r b s] by simp
    then show ?thesis using False by (simp add: cb)
  qed
qed

lemma wfPage_runAnimationFrame: "wfPage s \<Longrightarrow> wfPage (runAnimationFrame s)"
proof -
  assume wf: "wfPage s"
  have "wfPage (s\<lparr>frameCallbacks := []\<rparr>)" using wf wfPage_fields[of "s\<lparr>frameCallbacks := []\<rparr>" s] by simp
  then show ?thesis
    unfolding runAnimationFrame_def by (rule fold_invariant[rotated]) (rule wfPage_toggleFrame)
qed

lemma wfPage_click: "wfPage s \<Longrightarrow> wfPage (click t s)"
proof -
  assume wf: "wfPage s"
  have "document (click t s) = document s" "detached (click t s) = detached s"
    using click_cases[of t s] by auto
  then show ?thesis using wf wfPage_fields[of "click t s" s] by simp
qed

lemma wfPage_onRouteChange: "wfPage s \<Longrightarrow> wfPage (onRouteChange s)"
proof -
  assume wf: "wfPage s"
  have a: "wfPage (s\<lparr>isCurrentlyEditPage := e\<rparr>)" for e
    using wf wfPage_fields[of "s\<lparr>isCurrentlyEditPage := e\<rparr>" s] by simp
  have b: "wfPage (atObserver c a t) = wfPage t" for c a t
    by (rule wfPage_fields) (simp_all add: atObserver_def)
  show ?thesis
    by (cases "checkIsEditPage s")
       (simp_all add: onRouteChange_edit onRouteChange_other Let_def a b wfPage_initializeAllCodeBlocks)
qed

lemma wfPage_init: "wfPage s \<Longrightarrow> wfPage (init s)"
proof -
  assume wf: "wfPage s"
  have a: "wfPage (s\<lparr>isCurrentlyEditPage := e\<rparr>)" for e
    using wf wfPage_fields[of "s\<lparr>isCurrentlyEditPage := e\<rparr>" s] by simp
  have b: "wfPage (t\<lparr>mutationObserverCalls := c, mutationObserverActive := True\<rparr>) = wfPage t" for c t
    by (rule wfPage_fields) simp_all
  show ?thesis
    by (simp add: init_def Let_def a b wfPage_initializeAllCodeBlocks)
qed

lemma wfPage_react: "wfPage s \<Longrightarrow> wfPage (react e s)"
proof (cases e)
  case (PushState u)
  assume "wfPage s"
  then have "wfPage (s\<lparr>href := u\<rparr>)" using wfPage_fields[of "s\<lparr>href := u\<rparr>" s] by simp
  then show ?thesis using PushState by (simp add: pushState_def wfPage_onRouteChange)
next
  case (PopState u)
  assume "wfPage s"
  then have "wfPage (s\<lparr>href := u\<rparr>)" using wfPage_fields[of "s\<lparr>href := u\<rparr>" s] by simp
  then show ?thesis using PopState by (simp add: popstate_def wfPage_onRouteChange)
qed (simp_all add: wfPage_init wfPage_resizeObserverCallback wfPage_mutationObserverCallback
      wfPage_click wfPage_runAnimationFrame relayout_def wfPage_plain mutator_withScrollHeight)

lemma wfPage_run: "wfPage s \<Longrightarrow> wfPage (fold react es s)"
  by (erule fold_invariant[rotated]) (rule wfPage_react)










lemma collapsedInvariant_fields:
  "document s' = document s \<Longrightarrow> detached s' = detached s \<Longrightarrow>
   observedCodeBlocks s' = observedCodeBlocks s \<Longrightarrow>
   collapsedInvariant r root b s' = collapsedInvariant r root b s"
  by (simp add: collapsedInvariant_def lookupNode_def pathIn_def)








section \<open>The route flag and the location\<close>

lemma updateCodeBlock_location [simp]:
  "href (updateCodeBlock x s) = href s"
  "isCurrentlyEditPage (updateCodeBlock x s) = isCurrentlyEditPage s"
  using updateCodeBlock_cases[of x s] by (auto simp: appendChild_def setStyleHeight_def setId_def)

lemma initializeCodeBlock_location [simp]:
  "href (initializeCodeBlock x s) = href s"
  "isCurrentlyEditPage (initializeCodeBlock x s) = isCurrentlyEditPage s"
  by (cases "lookupNode x s"; simp add: initializeCodeBlock_def)+

lemma initializeAllCodeBlocks_location [simp]:
  "href (initializeAllCodeBlocks s) = href s"
  "isCurrentlyEditPage (initializeAllCodeBlocks s) = isCurrentlyEditPage s"
  by (simp_all add: initializeAllCodeBlocks_def fold_field[of href]
      fold_field[of isCurrentlyEditPage])

lemma resizeObserverCallback_location [simp]:
  "href (resizeObserverCallback entries s) = href s"
  "isCurrentlyEditPage (resizeObserverCallback entries s) = isCurrentlyEditPage s"
proof -
  have "href (resizeEntry x t) = href t"
       "isCurrentlyEditPage (resizeEntry x t) = isCurrentlyEditPage t" for x t
    by (cases "lookupNode x t"; simp add: resizeEntry_def)+
  then show "href (resizeObserverCallback entries s) = href s"
    "isCurrentlyEditPage (resizeObserverCallback entries s) = isCurrentlyEditPage s"
    by (simp_all add: resizeObserverCallback_def fold_field[of href]
        fold_field[of isCurrentlyEditPage])
qed

lemma processAddedNode_location [simp]:
  "href (processAddedNode x s) = href s"
  "isCurrentlyEditPage (processAddedNode x s) = isCurrentlyEditPage s"
  by (cases "lookupNode x s";
      simp add: processAddedNode_def fold_field[of href] fold_field[of isCurrentlyEditPage])+

lemma mutationObserverCallback_location [simp]:
  "href (mutationObserverCallback mutations s) = href s"
  "isCurrentlyEditPage (mutationObserverCallback mutations s) = isCurrentlyEditPage s"
proof -
  have "href (fold processAddedNode xs t) = href t"
       "isCurrentlyEditPage (fold processAddedNode xs t) = isCurrentlyEditPage t" for xs t
    by (simp_all add: fold_field[of href] fold_field[of isCurrentlyEditPage])
  then show "href (mutationObserverCallback mutations s) = href s"
    "isCurrentlyEditPage (mutationObserverCallback mutations s) = isCurrentlyEditPage s"
    by (simp_all add: mutationObserverCallback_def fold_field[of href]
        fold_field[of isCurrentlyEditPage])
qed

lemma atRoute_self: "atRoute (href s) (isCurrentlyEditPage s) s = s"
  by (simp add: atRoute_def)

lemma atRoute_fields: "href (atRoute u e s) = u" "isCurrentlyEditPage (atRoute u e s) = e"
  by (simp_all add: atRoute_def)

lemma click_location [simp]:
  "href (click t s) = href s"
  "isCurrentlyEditPage (click t s) = isCurrentlyEditPage s"
  using click_cases[of t s] by auto

lemma runAnimationFrame_location [simp]:
  "href (runAnimationFrame s) = href s"
  "isCurrentlyEditPage (runAnimationFrame s) = isCurrentlyEditPage s"
proof -
  have "runAnimationFrame s = atRoute (href s) (isCurrentlyEditPage s) (runAnimationFrame s)"
    using runAnimationFrame_route[of "href s" "isCurrentlyEditPage s" s] by (simp add: atRoute_self)
  then show "href (runAnimationFrame s) = href s"
    "isCurrentlyEditPage (runAnimationFrame s) = isCurrentlyEditPage s"
    using atRoute_fields[of "href s" "isCurrentlyEditPage s" "runAnimationFrame s"] by simp_all
qed

lemma relayout_location [simp]:
  "href (relayout x v s) = href s"
  "isCurrentlyEditPage (relayout x v s) = isCurrentlyEditPage s"
  by (simp_all add: relayout_def)






lemma routeConsistent_scriptLoaded:
  "isCurrentlyEditPage (scriptLoaded url doc others) = checkIsEditPage (scriptLoaded url doc others)"
  by (simp add: scriptLoaded_def Let_def checkIsEditPage_def)


section \<open>The observer flag over every event\<close>

lemma attached_cong:
  "mutationObserverCalls s' = mutationObserverCalls s \<Longrightarrow>
   mutationObserverActive s' = mutationObserverActive s \<Longrightarrow>
   (mutationObserverActive s' = mutationObserverAttached s')
     = (mutationObserverActive s = mutationObserverAttached s)"
  by (simp add: mutationObserverAttached_def)

lemma onRouteChange_calls:
  "mutationObserverCalls (onRouteChange s)
     = mutationObserverCalls s @
         (if checkIsEditPage s then (if mutationObserverActive s then [Disconnect] else [])
          else (if mutationObserverActive s then [] else [Observe]))"
  by (cases "checkIsEditPage s") (simp_all add: onRouteChange_edit onRouteChange_other Let_def)

lemma onRouteChange_active:
  "mutationObserverActive (onRouteChange s) = (\<not> checkIsEditPage s)"
  by (cases "checkIsEditPage s") (simp_all add: onRouteChange_edit onRouteChange_other Let_def)

lemma attached_onRouteChange:
  assumes "mutationObserverActive s = mutationObserverAttached s"
  shows "mutationObserverActive (onRouteChange s) = mutationObserverAttached (onRouteChange s)"
  using assms
  by (simp add: onRouteChange_active onRouteChange_calls mutationObserverAttached_def)

lemma attached_init:
  assumes "mutationObserverActive s = mutationObserverAttached s"
  shows "mutationObserverActive (init s) = mutationObserverAttached (init s)"
  using assms by (simp add: init_def Let_def mutationObserverAttached_def)

lemma attached_react:
  assumes "mutationObserverActive s = mutationObserverAttached s"
  shows "mutationObserverActive (react e s) = mutationObserverAttached (react e s)"
proof (cases e)
  case DOMContentLoaded
  then show ?thesis using assms by (simp add: attached_init)
next
  case (PushState u)
  have "mutationObserverActive (s\<lparr>href := u\<rparr>) = mutationObserverAttached (s\<lparr>href := u\<rparr>)"
    using assms by (simp add: mutationObserverAttached_def)
  then show ?thesis unfolding PushState react.simps pushState_def by (rule attached_onRouteChange)
next
  case (PopState u)
  have "mutationObserverActive (s\<lparr>href := u\<rparr>) = mutationObserverAttached (s\<lparr>href := u\<rparr>)"
    using assms by (simp add: mutationObserverAttached_def)
  then show ?thesis unfolding PopState react.simps popstate_def by (rule attached_onRouteChange)
next
  case (ResizeObserved entries)
  then show ?thesis using assms by (simp add: mutationObserverAttached_def)
next
  case (Mutated mutations)
  then show ?thesis using assms by (simp add: mutationObserverAttached_def)
next
  case (Click t)
  then show ?thesis using assms by (simp add: mutationObserverAttached_def)
next
  case AnimationFrame
  then show ?thesis using assms by (simp add: mutationObserverAttached_def)
next
  case (Layout x v)
  then show ?thesis using assms by (simp add: mutationObserverAttached_def)
qed

lemma attached_run:
  "mutationObserverActive s = mutationObserverAttached s \<Longrightarrow>
   mutationObserverActive (fold react es s) = mutationObserverAttached (fold react es s)"
  by (induction es arbitrary: s) (simp_all add: attached_react)

lemma attached_scriptLoaded:
  "mutationObserverActive (scriptLoaded url doc others)
     = mutationObserverAttached (scriptLoaded url doc others)"
  by (simp add: scriptLoaded_def Let_def mutationObserverAttached_def)


section \<open>The claims\<close>



text \<open>
  C2. A click on the button of a collapsed root, followed by the animation frame,
  marks the root and the button expanded and sets the style height of the root to the
  scroll height of the first \<^verbatim>\<open>cm-scroller\<close> element below the root, measured in that
  frame, in pixels, when there is one, and to \<^verbatim>\<open>auto\<close> when there is none. A second
  click and frame mark both collapsed and set the style height to \<^verbatim>\<open>400px\<close>.
\<close>

theorem toggle_round_trip:
  assumes "wfPage s" and "frameCallbacks s = []"
    and "lookupNode button s = Some btn" and "classContains btn ''code-expand-btn''"
    and "closest [''cm-editor''] button s = Some root"
    and "idAttr root = ''collapsed''"
  shows "(let r = nodeId root;
              s1 = runAnimationFrame (click button s);
              s2 = runAnimationFrame (click button s1)
          in idOf r s1 = Some ''expanded'' \<and> idOf button s1 = Some ''expanded'' \<and>
             styleHeightOf r s1
               = Some (case querySelector [''cm-scroller''] root of
                         None \<Rightarrow> ''auto''
                       | Some scroller \<Rightarrow> showNat (scrollHeight scroller) @ ''px'') \<and>
             idOf r s2 = Some ''collapsed'' \<and> idOf button s2 = Some ''collapsed'' \<and>
             styleHeightOf r s2 = Some ''400px'')"
proof -
  let ?r = "nodeId root"
  let ?s1 = "runAnimationFrame (click button s)"
  let ?s2 = "runAnimationFrame (click button ?s1)"
  let ?h = "expandedHeight ?r s"
  let ?U = "\<lambda>n. updateNode button (withId ''expanded'')
                 (updateNode ?r (withId ''expanded'') (updateNode ?r (withStyleHeight ?h) n))"
  have lr: "lookupNode ?r s = Some root"
    using assms(1) closest_in_page[OF assms(5)] by (rule wfPage_lookupNode)
  have lr': "lookupNode ?r s \<noteq> None" and lb': "lookupNode button s \<noteq> None"
    using lr assms(3) by simp_all
  have s1: "?s1 = toggleFrame (?r, button, True) s"
    using toggle_once[OF assms(2,3,4,5)] assms(6) by simp
  have h: "?h = (case querySelector [''cm-scroller''] root of
                   None \<Rightarrow> ''auto'' | Some scroller \<Rightarrow> showNat (scrollHeight scroller) @ ''px'')"
    by (simp add: expandedHeight_def lr)
  have e: "idOf ?r ?s1 = Some ''expanded''" "idOf button ?s1 = Some ''expanded''"
    "styleHeightOf ?r ?s1 = Some ?h" "frameCallbacks ?s1 = []"
    unfolding s1 using toggleFrame_expand_reads[OF lr' lb'] assms(2) by simp_all
  have lb1: "lookupNode button ?s1 = Some (?U btn)"
    unfolding s1 toggleFrame_expand
    by (simp add: lookupNode_setId lookupNode_setStyleHeight assms(3))
  have lr1: "lookupNode ?r ?s1 \<noteq> None"
    unfolding s1 toggleFrame_expand using lr' by simp
  have cb1: "classContains (?U btn) ''code-expand-btn''"
    using assms(4)
    by (simp add: classContains_updateNode[OF mutator_withId]
        classContains_updateNode[OF mutator_withStyleHeight])
  have cl1: "closest [''cm-editor''] button ?s1 = Some (?U root)"
    unfolding s1 toggleFrame_expand
    by (simp add: closest_setId closest_setStyleHeight assms(5))
  have id1: "nodeId (?U root) = ?r"
    by (simp add: updateNode_header[OF mutator_withId] updateNode_header[OF mutator_withStyleHeight])
  have ex1: "idAttr (?U root) = ''expanded''"
    by (simp add: updateNode_withId_attrs updateNode_header[OF mutator_withId]
        updateNode_header[OF mutator_withStyleHeight])
  have s2: "?s2 = toggleFrame (?r, button, False) ?s1"
    using toggle_once[OF e(4) lb1 cb1 cl1] by (simp only: id1 ex1) auto
  have lb1': "lookupNode button ?s1 \<noteq> None" using lb1 by simp
  have c: "idOf ?r ?s2 = Some ''collapsed''" "idOf button ?s2 = Some ''collapsed''"
    "styleHeightOf ?r ?s2 = Some ''400px''"
    unfolding s2 using toggleFrame_collapse_reads[OF lr1 lb1'] by simp_all
  show ?thesis
    unfolding Let_def using e(1,2,3) c by (simp only: h)
qed

theorem toggle_round_trip_witness:
  "wfPage collapsedState \<and> frameCallbacks collapsedState = [] \<and>
   idOf 3 collapsedState = Some ''collapsed'' \<and>
   idOf 3 (runAnimationFrame (click 7 collapsedState)) = Some ''expanded'' \<and>
   idOf 7 (runAnimationFrame (click 7 collapsedState)) = Some ''expanded'' \<and>
   styleHeightOf 3 (runAnimationFrame (click 7 collapsedState)) = Some ''640px'' \<and>
   idOf 3 (runAnimationFrame (click 7 (runAnimationFrame (click 7 collapsedState))))
     = Some ''collapsed'' \<and>
   idOf 7 (runAnimationFrame (click 7 (runAnimationFrame (click 7 collapsedState))))
     = Some ''collapsed'' \<and>
   styleHeightOf 3 (runAnimationFrame (click 7 (runAnimationFrame (click 7 collapsedState))))
     = Some ''400px''"
proof -
  let ?btn = "Node 7 1 [''code-expand-btn''] ''collapsed'' [] 0 []"
  let ?root = "Node 3 1 [''cm-editor''] ''collapsed'' ''400px'' 600
                 [Node 4 1 [''cm-scroller''] [] [] 640 [], ?btn]"
  have a: "wfPage collapsedState"
    and b: "frameCallbacks collapsedState = []"
    and c: "lookupNode 7 collapsedState = Some ?btn"
    and d: "classContains ?btn ''code-expand-btn''"
    and e: "closest [''cm-editor''] 7 collapsedState = Some ?root"
    and f: "idAttr ?root = ''collapsed''"
    and g: "(case querySelector [''cm-scroller''] ?root of
               None \<Rightarrow> ''auto''
             | Some scroller \<Rightarrow> showNat (scrollHeight scroller) @ ''px'') = ''640px''"
    and h: "idOf 3 collapsedState = Some ''collapsed''"
    by code_simp+
  from toggle_round_trip [OF a b c d e f] a b h show ?thesis
    by (simp only: Let_def g) simp
qed

text \<open>
  The claim C2 states the style height of the expanded root as a measured height for
  every root. The root of this page has scroll height 600, a button and no scroller: the
  click and the frame set its style height to \<^verbatim>\<open>auto\<close>, which is no measured height.
\<close>

theorem toggle_round_trip_counterexample:
  "idOf 3 bareState = Some ''collapsed'' \<and>
   hasToggleButton 3 bareState \<and>
   map_option scrollHeight (lookupNode 3 bareState) = Some 600 \<and>
   idOf 3 (runAnimationFrame (click 7 bareState)) = Some ''expanded'' \<and>
   styleHeightOf 3 (runAnimationFrame (click 7 bareState)) = Some ''auto'' \<and>
   styleHeightOf 3 (runAnimationFrame (click 7 bareState)) \<noteq> Some (showNat 600 @ ''px'')"
  by code_simp



text \<open>
  C4. A root whose scroll height is at most 400 is left alone. Evaluating it changes
  nothing; initializing it changes no node of the page (it is tracked and observed, no
  more); and after the whole initialization, which also initializes the other roots of
  the document, it has the id, the style height and the children it had, with the
  classes they had: no button was attached to it, it was not marked and its height was
  not set.
\<close>

theorem short_root_untouched:
  assumes "lookupNode r s = Some root" and "scrollHeight root \<le> COLLAPSED_HEIGHT"
  shows "updateCodeBlock r s = s \<and>
         document (initializeCodeBlock r s) = document s \<and>
         detached (initializeCodeBlock r s) = detached s \<and>
         (\<exists>root'. lookupNode r (init s) = Some root' \<and>
            idAttr root' = idAttr root \<and> styleHeight root' = styleHeight root \<and>
            map nodeId (childNodes root') = map nodeId (childNodes root) \<and>
            map classList (childNodes root') = map classList (childNodes root))"
proof -
  have "shallowInvariant r root s" using assms(1) by (simp add: shallowInvariant_def)
  then have "shallowInvariant r root (init s)" using assms(2) by (rule shallowInvariant_init)
  then have "\<exists>root'. lookupNode r (init s) = Some root' \<and>
            idAttr root' = idAttr root \<and> styleHeight root' = styleHeight root \<and>
            map nodeId (childNodes root') = map nodeId (childNodes root) \<and>
            map classList (childNodes root') = map classList (childNodes root)"
    unfolding shallowInvariant_def by blast
  then show ?thesis
    using assms by (simp add: updateCodeBlock_short initializeCodeBlock_short_page)
qed

theorem short_root_untouched_witness:
  "lookupNode 5 chatState = Some (Node 5 1 [''cm-editor''] [] [] 100 [Node 6 3 [] [] [] 0 []]) \<and>
   (100::nat) \<le> COLLAPSED_HEIGHT \<and>
   updateCodeBlock 5 chatState = chatState \<and>
   document (initializeCodeBlock 5 chatState) = document chatState \<and>
   lookupNode 5 (init chatState) = Some (Node 5 1 [''cm-editor''] [] [] 100 [Node 6 3 [] [] [] 0 []])"
proof -
  let ?root = "Node 5 1 [''cm-editor''] [] [] 100 [Node 6 3 [] [] [] 0 []]"
  have a: "lookupNode 5 chatState = Some ?root"
    and b: "scrollHeight ?root \<le> COLLAPSED_HEIGHT"
    and c: "lookupNode 5 (init chatState) = Some ?root"
    by code_simp+
  from short_root_untouched [OF a b] a b c show ?thesis by simp
qed

text \<open>
  C5. The full scan is idempotent: a second scan right after a first one leaves the state
  of the first as it is, so it attaches no button, observes no root again and tracks
  nothing new. A root that is already tracked is never initialized again.
\<close>

theorem scan_idempotent:
  "initializeAllCodeBlocks (initializeAllCodeBlocks s) = initializeAllCodeBlocks s \<and>
   (x \<in> observedCodeBlocks s \<longrightarrow> initializeCodeBlock x s = s)"
  by (simp add: initializeAllCodeBlocks_idem initializeCodeBlock_def split: option.splits)


theorem scan_idempotent_witness:
  "3 \<in> observedCodeBlocks collapsedState \<and>
   initializeCodeBlock 3 collapsedState = collapsedState \<and>
   initializeAllCodeBlocks (initializeAllCodeBlocks chatState) = initializeAllCodeBlocks chatState"
proof -
  have a: "3 \<in> observedCodeBlocks collapsedState" by code_simp
  from scan_idempotent [where s = collapsedState and x = 3]
    scan_idempotent [where s = chatState and x = 3] a
  show ?thesis by simp
qed

text \<open>
  C6. While the route is not the disabled page, the structural-change reaction finds a
  root that is not tracked yet when the root is an added node itself, or is a descendant,
  at any depth, of an added element that is not an editor root (line 137 does not search
  inside an added editor root). It then initializes the root exactly once, however often
  the root is reached through the added nodes of the batch: the root is tracked, one
  more call of \<^verbatim>\<open>resizeObserver.observe\<close> has been made for it, and, since it was
  evaluated, it has a toggle button when its scroll height exceeds 400.
\<close>

theorem structural_reaction_initializes_once:
  assumes "\<not> isCurrentlyEditPage s"
    and "lookupNode r s = Some root" and "classContains root ''cm-editor''"
    and "r \<notin> observedCodeBlocks s"
    and "mutation \<in> set mutations" and "node \<in> set (addedNodes mutation)"
    and "lookupNode node s = Some added" and "nodeType added = 1"
    and "node = r \<or>
         \<not> classContains added ''cm-editor'' \<and>
         r \<in> set (map nodeId (querySelectorAll [''cm-editor''] added))"
  shows "r \<in> observedCodeBlocks (mutationObserverCallback mutations s) \<and>
         count_list (resizeObserveCalls (mutationObserverCallback mutations s)) r
           = Suc (count_list (resizeObserveCalls s) r) \<and>
         (COLLAPSED_HEIGHT < scrollHeight root \<longrightarrow>
            hasToggleButton r (mutationObserverCallback mutations s))"
proof -
  let ?s' = "mutationObserverCallback mutations s"
  have el: "eligible r s" using assms(2,3) unfolding eligible_def by blast
  have re: "reaches node r s" using assms(7,8,9) unfolding reaches_def by blast
  have tr: "r \<in> observedCodeBlocks ?s'"
    using assms(1) fold_mutations_tracks[OF assms(5,6) re el]
    by (simp add: mutationObserverCallback_def)
  have "onceInvariant r (count_list (resizeObserveCalls s) r) s"
    using assms(4) by (simp add: onceInvariant_def)
  then have "onceInvariant r (count_list (resizeObserveCalls s) r) ?s'"
    by (rule onceInvariant_mutationObserverCallback)
  then have once: "count_list (resizeObserveCalls ?s') r = Suc (count_list (resizeObserveCalls s) r)"
    using tr by (simp add: onceInvariant_def)
  have "hasToggleButton r ?s'" if "COLLAPSED_HEIGHT < scrollHeight root"
  proof -
    have "tallInvariant r s" using assms(2,4) that by (simp add: tallInvariant_def)
    then have "tallInvariant r ?s'" by (rule tallInvariant_mutationObserverCallback)
    then show ?thesis using tr by (simp add: tallInvariant_def)
  qed
  then show ?thesis using tr once by blast
qed

theorem structural_reaction_initializes_once_witness:
  "\<not> isCurrentlyEditPage mutatedState \<and>
   13 \<notin> observedCodeBlocks mutatedState \<and>
   13 \<in> observedCodeBlocks
          (mutationObserverCallback [MutationRecord [10] [], MutationRecord [12, 13] []] mutatedState) \<and>
   resizeObserveCalls
     (mutationObserverCallback [MutationRecord [10] [], MutationRecord [12, 13] []] mutatedState)
     = [3, 5, 13] \<and>
   hasToggleButton 13
     (mutationObserverCallback [MutationRecord [10] [], MutationRecord [12, 13] []] mutatedState)"
proof -
  let ?root = "Node 13 1 [''cm-editor''] [] [] 700 [Node 14 1 [''cm-scroller''] [] [] 700 []]"
  let ?added = "Node 10 1 [''message''] [] [] 700
             [Node 11 1 [] [] [] 700 [Node 12 1 [''relative'', ''my-2''] [] [] 700 [?root]]]"
  let ?ms = "[MutationRecord [10] [], MutationRecord [12, 13] []]"
  have a: "\<not> isCurrentlyEditPage mutatedState"
    and b: "lookupNode 13 mutatedState = Some ?root"
    and c: "classContains ?root ''cm-editor''"
    and d: "13 \<notin> observedCodeBlocks mutatedState"
    and e: "MutationRecord [10] [] \<in> set ?ms"
    and f: "10 \<in> set (addedNodes (MutationRecord [10] []))"
    and g: "lookupNode 10 mutatedState = Some ?added"
    and h: "nodeType ?added = 1"
    and i: "10 = (13::nat) \<or> \<not> classContains ?added ''cm-editor'' \<and>
            13 \<in> set (map nodeId (querySelectorAll [''cm-editor''] ?added))"
    and j: "COLLAPSED_HEIGHT < scrollHeight ?root"
    and k: "resizeObserveCalls (mutationObserverCallback ?ms mutatedState) = [3, 5, 13]"
    by code_simp+
  from structural_reaction_initializes_once [OF a b c d e f g h i] a d j k
  show ?thesis by simp
qed

text \<open>
  The claim C6 speaks of every added root. The editor root 21 was added inside the added
  editor root 20: the reaction initializes 20 and not 21. The editor root 13 was added
  while the route is the disabled page: the reaction does nothing.
\<close>

theorem structural_reaction_counterexample:
  "lookupNode 21 nestedState = Some (Node 21 1 [''cm-editor''] [] [] 700 []) \<and>
   \<not> isCurrentlyEditPage nestedState \<and>
   21 \<notin> observedCodeBlocks (mutationObserverCallback [MutationRecord [20] []] nestedState) \<and>
   resizeObserveCalls (mutationObserverCallback [MutationRecord [20] []] nestedState) = [20] \<and>
   \<not> hasToggleButton 21 (mutationObserverCallback [MutationRecord [20] []] nestedState) \<and>
   lookupNode 13 editMutatedState
     = Some (Node 13 1 [''cm-editor''] [] [] 700 [Node 14 1 [''cm-scroller''] [] [] 700 []]) \<and>
   mutationObserverCallback [MutationRecord [10] []] editMutatedState = editMutatedState \<and>
   13 \<notin> observedCodeBlocks editMutatedState"
  by code_simp

text \<open>
  C7. Every toggle button of a root is still a toggle button of that root after every
  sequence of events the script reacts to: the initialization, route changes with their
  scan, size-change and structural-change callbacks, clicks and animation frames, also
  when the layout reports a smaller scroll height in between. So once the test of line
  55 succeeds on a root, it succeeds for ever.
\<close>

theorem toggle_button_never_removed:
  "toggleButtonsOf r s \<subseteq> toggleButtonsOf r (fold react events s) \<and>
   (hasToggleButton r s \<longrightarrow> hasToggleButton r (fold react events s))"
  using toggleButtonsOf_extends[OF extends_run] hasToggleButton_extends[OF _ extends_run]
  by blast

theorem toggle_button_never_removed_witness:
  "hasToggleButton 3 collapsedState \<and>
   toggleButtonsOf 3 collapsedState = {7} \<and>
   7 \<in> toggleButtonsOf 3
     (fold react
        [Click 7, AnimationFrame, Layout 3 50, Layout 4 50, ResizeObserved [3, 5],
         Mutated [MutationRecord [2] []], Click 7, AnimationFrame,
         PushState ''http://localhost:3000/workspace/functions'',
         PopState ''http://localhost:3000/c/1'', DOMContentLoaded]
        collapsedState) \<and>
   hasToggleButton 3
     (fold react
        [Click 7, AnimationFrame, Layout 3 50, Layout 4 50, ResizeObserved [3, 5],
         Mutated [MutationRecord [2] []], Click 7, AnimationFrame,
         PushState ''http://localhost:3000/workspace/functions'',
         PopState ''http://localhost:3000/c/1'', DOMContentLoaded]
        collapsedState)"
proof -
  let ?es = "[Click 7, AnimationFrame, Layout 3 50, Layout 4 50, ResizeObserved [3, 5],
         Mutated [MutationRecord [2] []], Click 7, AnimationFrame,
         PushState ''http://localhost:3000/workspace/functions'',
         PopState ''http://localhost:3000/c/1'', DOMContentLoaded]"
  have h: "hasToggleButton 3 collapsedState" and t: "toggleButtonsOf 3 collapsedState = {7}"
    by code_simp+
  from toggle_button_never_removed [where r = 3 and s = collapsedState and events = ?es] h t
  show ?thesis by simp
qed

text \<open>
  C8. Route change detection is idempotent: a second call at the same location changes
  nothing. Called in a state that already reflects the location (the flag is up to date
  and the observer flag is its negation, as \<open>onRouteChange\<close> leaves them), it does what
  the full scan does and nothing else. It calls \<open>observe\<close> only when the observer flag
  is off and \<open>disconnect\<close> only when it is on, and the observer flag equals the
  attachment of the observer from the loading of the script on, whatever the events are.
  So along every sequence of events after the initialization, no \<open>Observe\<close> is made
  while the observer is attached and no \<open>Disconnect\<close> while it is detached. The
  initialization of the freshly loaded script starts such a run: the observer is created
  detached and \<open>init\<close>, which runs once, attaches it without looking at the flag.
\<close>

theorem route_change_idempotent:
  "onRouteChange (onRouteChange s) = onRouteChange s \<and>
   mutationObserverActive (onRouteChange s) = (\<not> checkIsEditPage s) \<and>
   (isCurrentlyEditPage s = checkIsEditPage s \<and>
    mutationObserverActive s = (\<not> isCurrentlyEditPage s) \<longrightarrow>
      onRouteChange s = initializeAllCodeBlocks s) \<and>
   mutationObserverCalls (onRouteChange s)
     = mutationObserverCalls s @
         (if checkIsEditPage s then (if mutationObserverActive s then [Disconnect] else [])
          else (if mutationObserverActive s then [] else [Observe])) \<and>
   mutationObserverActive (fold react run (scriptLoaded url doc others))
     = mutationObserverAttached (fold react run (scriptLoaded url doc others)) \<and>
   (observerConsistent s \<and> DOMContentLoaded \<notin> set events \<longrightarrow>
      observerConsistent (fold react events s)) \<and>
   observerConsistent (init (scriptLoaded url doc others))"
proof -
  have 1: "onRouteChange (onRouteChange s) = onRouteChange s"
    by (rule onRouteChange_idem)
  have 2: "mutationObserverActive (onRouteChange s) = (\<not> checkIsEditPage s)"
    by (rule onRouteChange_active)
  have 3: "isCurrentlyEditPage s = checkIsEditPage s \<and>
           mutationObserverActive s = (\<not> isCurrentlyEditPage s) \<longrightarrow>
             onRouteChange s = initializeAllCodeBlocks s"
    by (simp add: onRouteChange_stable)
  have 4: "mutationObserverCalls (onRouteChange s)
     = mutationObserverCalls s @
         (if checkIsEditPage s then (if mutationObserverActive s then [Disconnect] else [])
          else (if mutationObserverActive s then [] else [Observe]))"
    by (rule onRouteChange_calls)
  have 5: "mutationObserverActive (fold react run (scriptLoaded url doc others))
     = mutationObserverAttached (fold react run (scriptLoaded url doc others))"
    using attached_scriptLoaded by (rule attached_run)
  have 6: "observerConsistent s \<and> DOMContentLoaded \<notin> set events \<longrightarrow>
      observerConsistent (fold react events s)"
    by (simp add: observerConsistent_run)
  have 7: "observerConsistent (init (scriptLoaded url doc others))"
    by (rule observerConsistent_init) (simp_all add: scriptLoaded_def Let_def)
  show ?thesis using 1 2 3 4 5 6 7 by blast
qed

theorem route_change_idempotent_witness:
  "isCurrentlyEditPage collapsedState = checkIsEditPage collapsedState \<and>
   mutationObserverActive collapsedState = (\<not> isCurrentlyEditPage collapsedState) \<and>
   onRouteChange collapsedState = initializeAllCodeBlocks collapsedState \<and>
   onRouteChange collapsedState = collapsedState \<and>
   observerConsistent collapsedState \<and>
   observerConsistent
     (fold react
        [PushState ''http://localhost:3000/workspace/functions'',
         PopState ''http://localhost:3000/workspace/functions/create'',
         Mutated [MutationRecord [2] []],
         PushState ''http://localhost:3000/c/2'', PopState ''http://localhost:3000/c/1'']
        collapsedState) \<and>
   observerConsistent (init chatState)"
proof -
  have a: "isCurrentlyEditPage collapsedState = checkIsEditPage collapsedState"
    and b: "mutationObserverActive collapsedState = (\<not> isCurrentlyEditPage collapsedState)"
    and c: "observerConsistent collapsedState"
    and d: "chatState = scriptLoaded ''http://localhost:3000/c/1'' chatDocument []"
    and e: "initializeAllCodeBlocks collapsedState = collapsedState"
    by code_simp+
  let ?es = "[PushState ''http://localhost:3000/workspace/functions'',
         PopState ''http://localhost:3000/workspace/functions/create'',
         Mutated [MutationRecord [2] []],
         PushState ''http://localhost:3000/c/2'', PopState ''http://localhost:3000/c/1'']"
  from route_change_idempotent [where s = collapsedState and events = ?es
      and url = "''http://localhost:3000/c/1''" and doc = chatDocument and others = "[]"]
    a b c d e
  show ?thesis by simp
qed

text \<open>
  C9. A click on the button of a root, followed by the animation frame, completes also
  when the sub-elements the script looks for are missing, and nothing is thrown or
  logged. On a collapsed root without a \<^verbatim>\<open>cm-scroller\<close> element below it, the root and
  the button are marked expanded and the style height is \<^verbatim>\<open>auto\<close>. On an expanded root
  with no ancestor matching \<^verbatim>\<open>.relative.my-2\<close>, the root and the button are marked
  collapsed, the style height is \<^verbatim>\<open>400px\<close> and no \<^verbatim>\<open>scrollIntoView\<close> call is made.
\<close>

theorem toggle_fallbacks:
  assumes "wfPage s" and "frameCallbacks s = []"
    and "lookupNode button s = Some btn" and "classContains btn ''code-expand-btn''"
    and "closest [''cm-editor''] button s = Some root"
  shows "(let r = nodeId root; s' = runAnimationFrame (click button s)
          in (idAttr root = ''collapsed'' \<and> querySelector [''cm-scroller''] root = None \<longrightarrow>
                idOf r s' = Some ''expanded'' \<and> idOf button s' = Some ''expanded'' \<and>
                styleHeightOf r s' = Some ''auto'' \<and>
                scrollIntoViewCalls s' = scrollIntoViewCalls s) \<and>
             (idAttr root \<noteq> ''collapsed'' \<and> closest [''relative'', ''my-2''] r s = None \<longrightarrow>
                idOf r s' = Some ''collapsed'' \<and> idOf button s' = Some ''collapsed'' \<and>
                styleHeightOf r s' = Some ''400px'' \<and>
                scrollIntoViewCalls s' = scrollIntoViewCalls s) \<and>
             consoleErrors s' = consoleErrors s \<and> frameCallbacks s' = [])"
proof -
  let ?r = "nodeId root"
  let ?s' = "runAnimationFrame (click button s)"
  have lr: "lookupNode ?r s = Some root"
    using assms(1) closest_in_page[OF assms(5)] by (rule wfPage_lookupNode)
  have lr': "lookupNode ?r s \<noteq> None" and lb': "lookupNode button s \<noteq> None"
    using lr assms(3) by simp_all
  have s': "?s' = toggleFrame (?r, button, idAttr root = ''collapsed'') s"
    by (rule toggle_once[OF assms(2,3,4,5)])
  have 1: "idOf ?r ?s' = Some ''expanded'' \<and> idOf button ?s' = Some ''expanded'' \<and>
           styleHeightOf ?r ?s' = Some ''auto'' \<and> scrollIntoViewCalls ?s' = scrollIntoViewCalls s"
    if "idAttr root = ''collapsed''" "querySelector [''cm-scroller''] root = None"
  proof -
    have "expandedHeight ?r s = ''auto''" using that(2) by (simp add: expandedHeight_def lr)
    then show ?thesis
      unfolding s' using toggleFrame_expand_reads[OF lr' lb'] that(1) by simp
  qed
  have 2: "idOf ?r ?s' = Some ''collapsed'' \<and> idOf button ?s' = Some ''collapsed'' \<and>
           styleHeightOf ?r ?s' = Some ''400px'' \<and> scrollIntoViewCalls ?s' = scrollIntoViewCalls s"
    if "idAttr root \<noteq> ''collapsed''" "closest [''relative'', ''my-2''] ?r s = None"
  proof -
    have "closest [''relative'', ''my-2''] ?r (collapsedPage ?r button s) = None"
      using that(2) by (simp add: collapsedPage_def closest_setId closest_setStyleHeight)
    then have "toggleFrame (?r, button, False) s = collapsedPage ?r button s"
      using toggleFrame_collapse_cases[of ?r button s] by auto
    then have "scrollIntoViewCalls (toggleFrame (?r, button, False) s) = scrollIntoViewCalls s"
      by (simp add: collapsedPage_def)
    then show ?thesis
      unfolding s' using toggleFrame_collapse_reads[OF lr' lb'] that(1) by simp
  qed
  have 3: "consoleErrors ?s' = consoleErrors s \<and> frameCallbacks ?s' = []"
    unfolding s' using toggleFrame_expand_reads(4,5)[OF lr' lb'] toggleFrame_collapse_page(3,4)[of ?r button s]
      assms(2)
    by (cases "idAttr root = ''collapsed''") simp_all
  show ?thesis unfolding Let_def using 1 2 3 by blast
qed

theorem toggle_fallbacks_witness:
  "wfPage bareState \<and> frameCallbacks bareState = [] \<and>
   idOf 3 (runAnimationFrame (click 7 bareState)) = Some ''expanded'' \<and>
   idOf 7 (runAnimationFrame (click 7 bareState)) = Some ''expanded'' \<and>
   styleHeightOf 3 (runAnimationFrame (click 7 bareState)) = Some ''auto'' \<and>
   consoleErrors (runAnimationFrame (click 7 bareState)) = [] \<and>
   wfPage bareExpandedState \<and> frameCallbacks bareExpandedState = [] \<and>
   idOf 3 (runAnimationFrame (click 7 bareExpandedState)) = Some ''collapsed'' \<and>
   idOf 7 (runAnimationFrame (click 7 bareExpandedState)) = Some ''collapsed'' \<and>
   styleHeightOf 3 (runAnimationFrame (click 7 bareExpandedState)) = Some ''400px'' \<and>
   scrollIntoViewCalls (runAnimationFrame (click 7 bareExpandedState)) = [] \<and>
   consoleErrors (runAnimationFrame (click 7 bareExpandedState)) = []"
proof -
  let ?btn = "Node 7 1 [''code-expand-btn''] ''collapsed'' [] 0 []"
  let ?root = "Node 3 1 [''cm-editor''] ''collapsed'' ''400px'' 600
                 [Node 8 1 [''cm-content''] [] [] 600 [], ?btn]"
  let ?btn' = "Node 7 1 [''code-expand-btn''] ''expanded'' [] 0 []"
  let ?root' = "Node 3 1 [''cm-editor''] ''expanded'' ''auto'' 600
                 [Node 8 1 [''cm-content''] [] [] 600 [], ?btn']"
  have a: "wfPage bareState" "frameCallbacks bareState = []"
    and b: "lookupNode 7 bareState = Some ?btn" "classContains ?btn ''code-expand-btn''"
    and c: "closest [''cm-editor''] 7 bareState = Some ?root"
    and d: "idAttr ?root = ''collapsed''" "querySelector [''cm-scroller''] ?root = None"
    and e: "consoleErrors bareState = []"
    by code_simp+
  have a': "wfPage bareExpandedState" "frameCallbacks bareExpandedState = []"
    and b': "lookupNode 7 bareExpandedState = Some ?btn'" "classContains ?btn' ''code-expand-btn''"
    and c': "closest [''cm-editor''] 7 bareExpandedState = Some ?root'"
    and d': "idAttr ?root' \<noteq> ''collapsed''"
      "closest [''relative'', ''my-2''] (nodeId ?root') bareExpandedState = None"
    and e': "consoleErrors bareExpandedState = []" "scrollIntoViewCalls bareExpandedState = []"
    by code_simp+
  from toggle_fallbacks [OF a b c] toggle_fallbacks [OF a' b' c'] a a' d d' e e'
  show ?thesis by (simp add: Let_def)
qed

text \<open>
  C10. The click listener and the frame callback read neither the route flag nor the
  location: in two states that differ only there, a click, the animation frame, and a
  click followed by the animation frame make the same changes, so the resulting states
  differ only there again; the page, the frame queue and the calls made are the same.
\<close>

theorem click_not_gated:
  "click target (s\<lparr>href := u, isCurrentlyEditPage := e\<rparr>)
     = (click target s)\<lparr>href := u, isCurrentlyEditPage := e\<rparr> \<and>
   runAnimationFrame (s\<lparr>href := u, isCurrentlyEditPage := e\<rparr>)
     = (runAnimationFrame s)\<lparr>href := u, isCurrentlyEditPage := e\<rparr> \<and>
   runAnimationFrame (click target (s\<lparr>href := u, isCurrentlyEditPage := e\<rparr>))
     = (runAnimationFrame (click target s))\<lparr>href := u, isCurrentlyEditPage := e\<rparr>"
proof -
  have 1: "click target (atRoute u e s) = atRoute u e (click target s)"
    by (rule click_route)
  have 2: "runAnimationFrame (atRoute u e t) = atRoute u e (runAnimationFrame t)" for t
    by (rule runAnimationFrame_route)
  have "runAnimationFrame (click target (atRoute u e s))
          = atRoute u e (runAnimationFrame (click target s))"
    by (simp only: 1 2)
  then show ?thesis
    using 1 2[of s] unfolding atRoute_def by simp
qed

theorem click_not_gated_witness:
  "idOf 3 (runAnimationFrame (click 7
      (collapsedState\<lparr>href := ''http://localhost:3000/workspace/functions'',
                       isCurrentlyEditPage := True\<rparr>))) = Some ''expanded'' \<and>
   styleHeightOf 3 (runAnimationFrame (click 7
      (collapsedState\<lparr>href := ''http://localhost:3000/workspace/functions'',
                       isCurrentlyEditPage := True\<rparr>))) = Some ''640px''"
proof -
  let ?u = "''http://localhost:3000/workspace/functions''"
  have a: "idOf 3 (runAnimationFrame (click 7 collapsedState)) = Some ''expanded''"
    and b: "styleHeightOf 3 (runAnimationFrame (click 7 collapsedState)) = Some ''640px''"
    by code_simp+
  have c: "idOf x (t\<lparr>href := ?u, isCurrentlyEditPage := True\<rparr>) = idOf x t"
    "styleHeightOf x (t\<lparr>href := ?u, isCurrentlyEditPage := True\<rparr>) = styleHeightOf x t" for x t
    by (simp_all add: idOf_def styleHeightOf_def lookupNode_def pathIn_def)
  from click_not_gated [where target = 7 and s = collapsedState and u = ?u and e = True] have
    "runAnimationFrame (click 7 (collapsedState\<lparr>href := ?u, isCurrentlyEditPage := True\<rparr>))
       = (runAnimationFrame (click 7 collapsedState))\<lparr>href := ?u, isCurrentlyEditPage := True\<rparr>"
    by blast
  then show ?thesis by (simp only: c a b)
qed

end
